theory Spec2Isabelle
  imports Main "HOL-Library.AList" "HOL-Library.Sublist"
begin

section \<open>JavaScript values\<close>

text \<open>
  The two services are TypeScript, but what they do is decided at run time by
  \<^verbatim>\<open>typeof\<close>, \<^verbatim>\<open>in\<close>, truthiness and \<^verbatim>\<open>??\<close>. The values
  are therefore modelled dynamically: plain data, an object being the list of its own data
  properties in insertion order (a key is looked up at its first entry). Functions, symbols,
  arrays, accessors and changed prototypes are outside the model.

  A number is a double. The services test its type, its truth and whether it is 0, and print
  it in a template literal; they do no arithmetic on it. A number is therefore given by what
  \<^verbatim>\<open>Number::toString\<close> (ECMA-262, 6.1.6.1.20) prints it from: it is \<^verbatim>\<open>NaN\<close>, an
  infinity with its sign, or \<open>Dec neg s e\<close>, the number \<open>s * 10^e\<close> with its sign
  (\<open>neg\<close> holds of a negative number), where \<open>s\<close> and \<open>e\<close> are the integers
  \<open>s\<close> and \<open>n - k\<close> of step 5 of that algorithm: \<open>s\<close> holds the digits of the
  shortest decimal that reads back as the number, so it is no multiple of ten. Zero is
  \<open>Dec neg 0 0\<close>, with either sign. The integer \<open>i\<close> from 0 to 9 is
  \<open>Dec False i 0\<close>, 480 is \<open>Dec False 48 1\<close>, 1.5 is \<open>Dec False 15 (- 1)\<close>, and
  \<open>2^63\<close> is \<open>Dec False 9223372036854776 3\<close>. Every number has exactly one such form;
  a \<open>Dec\<close> that is not of this form (a nonzero multiple of ten as \<open>s\<close>, a zero with
  another exponent) is the form of no number, and what is proved below for all values holds
  of it as well.
\<close>

datatype number = NaN | Infinity bool | Dec bool nat int

datatype jsval =
    JUndefined
  | JNull
  | JBool bool
  | JNum number
  | JStr string
  | JObj "(string \<times> jsval) list"

type_synonym object = "(string \<times> jsval) list"

text \<open>The integers from 0 to 9, for the examples.\<close>

abbreviation JInt :: "nat \<Rightarrow> jsval" where
  "JInt i \<equiv> JNum (Dec False i 0)"

text \<open>The only exception these services can raise is the run-time's \<^verbatim>\<open>TypeError\<close>.\<close>

datatype error = TypeError

definition and_then :: "'e + 'a \<Rightarrow> ('a \<Rightarrow> 'e + 'b) \<Rightarrow> 'e + 'b" where
  "and_then r f = (case r of Inl e \<Rightarrow> Inl e | Inr v \<Rightarrow> f v)"

text \<open>\<^verbatim>\<open>typeof v\<close>; note \<^verbatim>\<open>typeof null === "object"\<close>.\<close>

fun typeof :: "jsval \<Rightarrow> string" where
  "typeof JUndefined = ''undefined''"
| "typeof JNull = ''object''"
| "typeof (JBool b) = ''boolean''"
| "typeof (JNum n) = ''number''"
| "typeof (JStr s) = ''string''"
| "typeof (JObj m) = ''object''"

text \<open>\<^verbatim>\<open>x === 0\<close> on a number: both zeros are equal to 0.\<close>

fun is_zero :: "number \<Rightarrow> bool" where
  "is_zero (Dec neg s e) = (s = 0)"
| "is_zero x = False"

text \<open>
  The condition of \<^verbatim>\<open>if (v)\<close>, \<^verbatim>\<open>!v\<close> and \<^verbatim>\<open>v || w\<close>; the falsy numbers
  are the zeros and \<^verbatim>\<open>NaN\<close>.
\<close>

fun truthy :: "jsval \<Rightarrow> bool" where
  "truthy JUndefined = False"
| "truthy JNull = False"
| "truthy (JBool b) = b"
| "truthy (JNum n) = (\<not> is_zero n \<and> n \<noteq> NaN)"
| "truthy (JStr s) = (s \<noteq> [])"
| "truthy (JObj m) = True"

definition or_else :: "jsval \<Rightarrow> jsval \<Rightarrow> jsval" where
  "or_else v w = (if truthy v then v else w)"

text \<open>
  \<^verbatim>\<open>v ?? w\<close>: the right operand stands in for \<^verbatim>\<open>undefined\<close> and
  \<^verbatim>\<open>null\<close> only. The operator associates to the left.
\<close>

definition coalesce :: "jsval \<Rightarrow> jsval \<Rightarrow> jsval" where
  "coalesce v w = (if v = JUndefined \<or> v = JNull then w else v)"

text \<open>\<^verbatim>\<open>o.k\<close> on an object: a missing property reads as \<^verbatim>\<open>undefined\<close>.\<close>

definition get_prop :: "object \<Rightarrow> string \<Rightarrow> jsval" where
  "get_prop obj k = (case map_of obj k of None \<Rightarrow> JUndefined | Some v \<Rightarrow> v)"

text \<open>
  \<^verbatim>\<open>v[k]\<close> on any value: reading a property of \<^verbatim>\<open>undefined\<close> or \<^verbatim>\<open>null\<close>
  throws; a primitive has none of the keys these services read.
\<close>

fun member :: "jsval \<Rightarrow> string \<Rightarrow> error + jsval" where
  "member JUndefined k = Inl TypeError"
| "member JNull k = Inl TypeError"
| "member (JObj m) k = Inr (get_prop m k)"
| "member v k = Inr JUndefined"

text \<open>\<^verbatim>\<open>k in v\<close>: throws unless the right operand is an object.\<close>

fun has_key :: "string \<Rightarrow> jsval \<Rightarrow> error + bool" where
  "has_key k (JObj m) = Inr (map_of m k \<noteq> None)"
| "has_key k v = Inl TypeError"

text \<open>
  \<^verbatim>\<open>"sm" in v || "md" in v || "lg" in v\<close>, the key-presence test both services use
  to recognise a breakpoint object.
\<close>

definition has_breakpoint_key :: "jsval \<Rightarrow> error + bool" where
  "has_breakpoint_key v =
     and_then (has_key ''sm'' v) (\<lambda>a. if a then Inr True else
     and_then (has_key ''md'' v) (\<lambda>b. if b then Inr True else
     has_key ''lg'' v))"

subsection \<open>Conversion to a string in a template literal\<close>

definition digit :: "nat \<Rightarrow> char" where
  "digit d = ''0123456789'' ! d"

fun show_nat :: "nat \<Rightarrow> string" where
  "show_nat n = (if n < 10 then [digit n] else show_nat (n div 10) @ [digit (n mod 10)])"

declare show_nat.simps [simp del]

definition show_sign :: "bool \<Rightarrow> string" where
  "show_sign neg = (if neg then ''-'' else [])"

text \<open>
  Steps 6 to 12 of \<^verbatim>\<open>Number::toString\<close>, for the digits \<open>ds\<close> of \<open>s\<close> (there are
  \<open>k\<close> of them) and the position \<open>n\<close> of the decimal point: with \<open>n\<close> from -5 to
  21 the digits followed by \<open>n - k\<close> zeros, or the digits with the point after the first
  \<open>n\<close>, or \<^verbatim>\<open>0.\<close>, \<open>- n\<close> zeros and the digits; otherwise the first digit, the
  point and the other digits if there are any, then \<^verbatim>\<open>e\<close>, the sign of the exponent and
  \<open>\<bar>n - 1\<bar>\<close>.
\<close>

definition show_decimal :: "string \<Rightarrow> int \<Rightarrow> string" where
  "show_decimal ds n =
     (let k = int (length ds) in
      if - 5 \<le> n \<and> n \<le> 21 then
        if k \<le> n then ds @ replicate (nat (n - k)) CHR ''0''
        else if 0 < n then take (nat n) ds @ ''.'' @ drop (nat n) ds
        else ''0.'' @ replicate (nat (- n)) CHR ''0'' @ ds
      else
        (if k = 1 then ds else take 1 ds @ ''.'' @ drop 1 ds)
        @ ''e'' @ (if n < 0 then ''-'' else ''+'') @ show_nat (nat \<bar>n - 1\<bar>))"

text \<open>
  \<^verbatim>\<open>Number::toString\<close> in radix 10, steps 1 to 5: \<^verbatim>\<open>NaN\<close>; \<^verbatim>\<open>0\<close> for both
  zeros; the sign of a negative number, then the number negated; \<^verbatim>\<open>Infinity\<close>; and for
  the others \<open>n = e + k\<close>.
\<close>

fun Number_toString :: "number \<Rightarrow> string" where
  "Number_toString NaN = ''NaN''"
| "Number_toString (Infinity neg) = show_sign neg @ ''Infinity''"
| "Number_toString (Dec neg s e) =
     (if s = 0 then ''0''
      else show_sign neg @ show_decimal (show_nat s) (e + int (length (show_nat s))))"

text \<open>
  \<^verbatim>\<open>`${v}`\<close>. A plain object prints through \<^verbatim>\<open>Object.prototype.toString\<close>; an own
  property \<^verbatim>\<open>toString\<close> shadows it, and as the model has no functions the conversion
  then finds nothing callable and throws.
\<close>

fun to_string :: "jsval \<Rightarrow> error + string" where
  "to_string JUndefined = Inr ''undefined''"
| "to_string JNull = Inr ''null''"
| "to_string (JBool b) = Inr (if b then ''true'' else ''false'')"
| "to_string (JNum n) = Inr (Number_toString n)"
| "to_string (JStr s) = Inr s"
| "to_string (JObj m) =
     (if map_of m ''toString'' \<noteq> None then Inl TypeError else Inr ''[object Object]'')"

text \<open>\<^verbatim>\<open>parts.join("\n")\<close> on an array of strings.\<close>

fun join_nl :: "string list \<Rightarrow> string" where
  "join_nl [] = []"
| "join_nl [x] = x"
| "join_nl (x # y # ys) = x @ ''\<newline>'' @ join_nl (y # ys)"

section \<open>styleFlex.ts\<close>

datatype Breakpoint = Sm | Md | Lg

fun bp_key :: "Breakpoint \<Rightarrow> string" where
  "bp_key Sm = ''sm''"
| "bp_key Md = ''md''"
| "bp_key Lg = ''lg''"

text \<open>\<^verbatim>\<open>v === 0\<close> on any value.\<close>

fun equals_zero :: "jsval \<Rightarrow> bool" where
  "equals_zero (JNum n) = is_zero n"
| "equals_zero v = False"

text \<open>\<^verbatim>\<open>getGapSize\<close>, lines 21-22.\<close>

definition getGapSize :: "jsval \<Rightarrow> error + jsval" where
  "getGapSize gap_size =
     (if gap_size \<noteq> JUndefined then
        (if equals_zero gap_size then Inr (JStr ''0'')
         else and_then (to_string gap_size) (\<lambda>s. Inr (JStr (''var(--gap-size-'' @ s @ '')''))))
      else Inr JUndefined)"

text \<open>
  One of the four blocks of lines 67-78:
  \<^verbatim>\<open>if (styles.top !== undefined) parts.push(`${prefix}-top: ${getGapSize(styles.top)};`)\<close>,
  as the strings it appends to \<^verbatim>\<open>parts\<close>.
\<close>

definition side_part :: "jsval \<Rightarrow> string \<Rightarrow> jsval \<Rightarrow> error + string list" where
  "side_part kind side v =
     (if v \<noteq> JUndefined then
        and_then (to_string kind) (\<lambda>p.
        and_then (getGapSize v) (\<lambda>g.
        and_then (to_string g) (\<lambda>t.
        Inr [p @ ''-'' @ side @ '': '' @ t @ '';''])))
      else Inr [])"

text \<open>
  The array \<^verbatim>\<open>parts\<close> of \<^verbatim>\<open>styleSpacing\<close> at line 80, for a truthy
  \<^verbatim>\<open>def\<close> (lines 54-78).
\<close>

definition styleSpacing_parts :: "jsval \<Rightarrow> jsval \<Rightarrow> error + string list" where
  "styleSpacing_parts kind def =
     and_then (member def ''top'') (\<lambda>d_top.
     and_then (member def ''right'') (\<lambda>d_right.
     and_then (member def ''bottom'') (\<lambda>d_bottom.
     and_then (member def ''left'') (\<lambda>d_left.
     and_then (member def ''vertical'') (\<lambda>d_vertical.
     and_then (member def ''horizontal'') (\<lambda>d_horizontal.
     and_then (member def ''all'') (\<lambda>d_all.
     let styles_top = coalesce (coalesce d_top d_vertical) d_all;
         styles_right = coalesce (coalesce d_right d_horizontal) d_all;
         styles_bottom = coalesce (coalesce d_bottom d_vertical) d_all;
         styles_left = coalesce (coalesce d_left d_horizontal) d_all
     in
     and_then (side_part kind ''top'' styles_top) (\<lambda>p1.
     and_then (side_part kind ''right'' styles_right) (\<lambda>p2.
     and_then (side_part kind ''bottom'' styles_bottom) (\<lambda>p3.
     and_then (side_part kind ''left'' styles_left) (\<lambda>p4.
     Inr (p1 @ p2 @ p3 @ p4))))))))))))"

text \<open>\<^verbatim>\<open>styleSpacing\<close>, lines 52-81.\<close>

definition styleSpacing :: "jsval \<Rightarrow> jsval \<Rightarrow> error + string" where
  "styleSpacing kind def =
     (if \<not> truthy def then Inr []
      else and_then (styleSpacing_parts kind def) (\<lambda>parts. Inr (join_nl parts)))"

text \<open>
  The extraction of lines 141-174, written five times in the source with the scalar's type
  name changing:
  \<^verbatim>\<open>typeof v === "object" ? v[breakpoint] : breakpoint === "sm" && typeof v === T ? v : undefined\<close>.
\<close>

definition tier_value :: "Breakpoint \<Rightarrow> string \<Rightarrow> jsval \<Rightarrow> error + jsval" where
  "tier_value breakpoint scalar v =
     (if typeof v = ''object'' then member v (bp_key breakpoint)
      else if breakpoint = Sm \<and> typeof v = scalar then Inr v
      else Inr JUndefined)"

text \<open>The extraction of the spacing, lines 177-181.\<close>

definition tier_spacing :: "Breakpoint \<Rightarrow> jsval \<Rightarrow> error + jsval" where
  "tier_spacing breakpoint v =
     (if typeof v = ''object'' then
        and_then (has_breakpoint_key v) (\<lambda>b.
          if b then member v (bp_key breakpoint) else Inr JUndefined)
      else Inr JUndefined)"

text \<open>A pushed declaration \<^verbatim>\<open>`name: ${v};`\<close>.\<close>

definition pushed :: "string \<Rightarrow> jsval \<Rightarrow> error + string list" where
  "pushed name v = and_then (to_string v) (\<lambda>s. Inr [name @ '': '' @ s @ '';''])"

text \<open>Lines 215-220: what the spacing appends to \<^verbatim>\<open>styles\<close>.\<close>

definition spacing_styles :: "object \<Rightarrow> jsval \<Rightarrow> error + string list" where
  "spacing_styles props spacing =
     (if truthy spacing then
        and_then (styleSpacing (or_else (get_prop props ''type'') (JStr ''padding'')) spacing)
          (\<lambda>spacingStyles. if spacingStyles \<noteq> [] then Inr [spacingStyles] else Inr [])
      else Inr [])"

text \<open>The array \<^verbatim>\<open>styles\<close> of \<^verbatim>\<open>styleFlex\<close> at line 222.\<close>

definition styleFlex_styles :: "Breakpoint \<Rightarrow> object \<Rightarrow> error + string list" where
  "styleFlex_styles breakpoint props =
     and_then (tier_value breakpoint ''string'' (get_prop props ''direction'')) (\<lambda>direction.
     and_then (tier_value breakpoint ''number'' (get_prop props ''gap'')) (\<lambda>gap.
     and_then (tier_value breakpoint ''number'' (get_prop props ''grow'')) (\<lambda>grow.
     and_then (tier_value breakpoint ''string'' (get_prop props ''alignItems'')) (\<lambda>alignItems.
     and_then (tier_value breakpoint ''string'' (get_prop props ''justifyContent'')) (\<lambda>justifyContent.
     and_then (tier_spacing breakpoint (get_prop props ''spacing'')) (\<lambda>spacing.
     and_then (if truthy direction then pushed ''flex-direction'' direction else Inr []) (\<lambda>s_direction.
     and_then (if truthy alignItems then pushed ''align-items'' alignItems else Inr []) (\<lambda>s_align.
     and_then (if truthy justifyContent then pushed ''justify-content'' justifyContent else Inr []) (\<lambda>s_justify.
     and_then (if grow \<noteq> JUndefined then pushed ''flex-grow'' grow else Inr []) (\<lambda>s_grow.
     and_then (if gap \<noteq> JUndefined
               then and_then (to_string gap) (\<lambda>g. Inr [''gap: var(--gap-size-'' @ g @ '');''])
               else Inr []) (\<lambda>s_gap.
     and_then (spacing_styles props spacing) (\<lambda>s_spacing.
     Inr ((if breakpoint = Sm then [''display: flex;''] else [])
          @ s_direction @ s_align @ s_justify
          @ (if grow \<noteq> JUndefined then s_grow @ [''flex-basis: 0;''] else [])
          @ s_gap @ s_spacing)))))))))))))"

text \<open>\<^verbatim>\<open>styleFlex\<close>, lines 134-223.\<close>

definition styleFlex :: "Breakpoint \<Rightarrow> object \<Rightarrow> error + string" where
  "styleFlex breakpoint props =
     and_then (styleFlex_styles breakpoint props) (\<lambda>styles. Inr (join_nl styles))"

section \<open>normalizeProps.ts\<close>

definition BREAKPOINT_PROPS :: "string list" where
  "BREAKPOINT_PROPS = [''gap'', ''direction'', ''grow'']"

text \<open>The body of the \<^verbatim>\<open>forEach\<close>, lines 76-81.\<close>

definition normalize_breakpoint_prop :: "object \<Rightarrow> object \<Rightarrow> string \<Rightarrow> object" where
  "normalize_breakpoint_prop props normalizedProps propName =
     (let v = get_prop props propName in
      if v \<noteq> JUndefined \<and> typeof v \<noteq> ''object''
      then AList.update propName (JObj [(''sm'', v)]) normalizedProps
      else normalizedProps)"

text \<open>The spacing, lines 85-96.\<close>

definition normalize_spacing :: "object \<Rightarrow> object \<Rightarrow> error + object" where
  "normalize_spacing props normalizedProps =
     (let spacing = get_prop props ''spacing'' in
      if spacing \<noteq> JUndefined then
        if typeof spacing = ''number''
        then Inr (AList.update ''spacing'' (JObj [(''sm'', JObj [(''all'', spacing)])]) normalizedProps)
        else and_then (has_breakpoint_key spacing) (\<lambda>b.
          if \<not> b then Inr (AList.update ''spacing'' (JObj [(''sm'', spacing)]) normalizedProps)
          else Inr normalizedProps)
      else Inr normalizedProps)"

text \<open>
  \<^verbatim>\<open>normalizedProps\<close> after the \<^verbatim>\<open>forEach\<close> of lines 71-82. The copy
  \<^verbatim>\<open>{ ...props }\<close> has the properties of \<^verbatim>\<open>props\<close> in their order, and an
  assignment to a key it has replaces the value in place.
\<close>

definition breakpoint_props_done :: "object \<Rightarrow> object" where
  "breakpoint_props_done props = foldl (normalize_breakpoint_prop props) props BREAKPOINT_PROPS"

text \<open>\<^verbatim>\<open>normalizeProps\<close>, lines 69-99.\<close>

definition normalizeProps :: "object \<Rightarrow> error + object" where
  "normalizeProps props = normalize_spacing props (breakpoint_props_done props)"

section \<open>normalizeProps.ts on a store of objects\<close>

text \<open>
  That the normalizer returns a new record and leaves its argument as it was is a matter of
  object identity, which values as trees do not have. Here objects live in a store, a
  value refers to an object by its address, \<^verbatim>\<open>{ ... }\<close> allocates, and an assignment
  changes the store. The function below is lines 69-99 again, statement by statement; below,
  it is proved to compute what \<open>normalizeProps\<close> computes on the trees the addresses
  denote.
\<close>

type_synonym addr = nat

datatype ref_val = RUndefined | RNull | RBool bool | RNum number | RStr string | RRef addr

abbreviation RInt :: "nat \<Rightarrow> ref_val" where
  "RInt i \<equiv> RNum (Dec False i 0)"

type_synonym ref_object = "(string \<times> ref_val) list"

type_synonym store = "ref_object list"

text \<open>An address outside the store is no state of a JavaScript program; the model reports it
  apart from the exceptions.\<close>

datatype fault = Throws error | Dangling

fun typeof_ref :: "ref_val \<Rightarrow> string" where
  "typeof_ref RUndefined = ''undefined''"
| "typeof_ref RNull = ''object''"
| "typeof_ref (RBool b) = ''boolean''"
| "typeof_ref (RNum n) = ''number''"
| "typeof_ref (RStr s) = ''string''"
| "typeof_ref (RRef a) = ''object''"

definition read_prop :: "ref_object \<Rightarrow> string \<Rightarrow> ref_val" where
  "read_prop obj k = (case map_of obj k of None \<Rightarrow> RUndefined | Some v \<Rightarrow> v)"

definition deref :: "store \<Rightarrow> addr \<Rightarrow> fault + ref_object" where
  "deref s a = (if a < length s then Inr (s ! a) else Inl Dangling)"

text \<open>An object literal or a spread copy: the new object gets the next address.\<close>

definition allocate :: "store \<Rightarrow> ref_object \<Rightarrow> store \<times> addr" where
  "allocate s obj = (s @ [obj], length s)"

text \<open>
  \<^verbatim>\<open>o[k] = v\<close> on the object at an address. The normalizer assigns only to the copy
  it has just allocated, an address the store has.
\<close>

definition assign :: "store \<Rightarrow> addr \<Rightarrow> string \<Rightarrow> ref_val \<Rightarrow> store" where
  "assign s a k v = s[a := AList.update k v (s ! a)]"

text \<open>The body of the \<^verbatim>\<open>forEach\<close>, lines 76-81.\<close>

definition store_breakpoint_prop :: "addr \<Rightarrow> addr \<Rightarrow> store \<Rightarrow> string \<Rightarrow> fault + store" where
  "store_breakpoint_prop props normalizedProps s propName =
     and_then (deref s props) (\<lambda>obj.
       let v = read_prop obj propName in
       if v \<noteq> RUndefined \<and> typeof_ref v \<noteq> ''object''
       then (case allocate s [(''sm'', v)] of
               (s', wrapped) \<Rightarrow> Inr (assign s' normalizedProps propName (RRef wrapped)))
       else Inr s)"

fun store_forEach :: "(store \<Rightarrow> string \<Rightarrow> fault + store) \<Rightarrow> store \<Rightarrow> string list \<Rightarrow> fault + store" where
  "store_forEach f s [] = Inr s"
| "store_forEach f s (k # ks) = and_then (f s k) (\<lambda>s'. store_forEach f s' ks)"

text \<open>\<^verbatim>\<open>"sm" in v || "md" in v || "lg" in v\<close>.\<close>

fun store_has_breakpoint_key :: "store \<Rightarrow> ref_val \<Rightarrow> fault + bool" where
  "store_has_breakpoint_key s (RRef a) = and_then (deref s a) (\<lambda>obj.
     Inr (map_of obj ''sm'' \<noteq> None \<or> map_of obj ''md'' \<noteq> None \<or> map_of obj ''lg'' \<noteq> None))"
| "store_has_breakpoint_key s v = Inl (Throws TypeError)"

text \<open>The spacing, lines 85-96; the inner literal of \<^verbatim>\<open>{ sm: { all: props.spacing } }\<close> is
  allocated first.\<close>

definition store_spacing :: "addr \<Rightarrow> addr \<Rightarrow> store \<Rightarrow> fault + store" where
  "store_spacing props normalizedProps s =
     and_then (deref s props) (\<lambda>obj.
       let spacing = read_prop obj ''spacing'' in
       if spacing \<noteq> RUndefined then
         if typeof_ref spacing = ''number''
         then (case allocate s [(''all'', spacing)] of (s1, inner) \<Rightarrow>
               case allocate s1 [(''sm'', RRef inner)] of (s2, outer) \<Rightarrow>
                 Inr (assign s2 normalizedProps ''spacing'' (RRef outer)))
         else and_then (store_has_breakpoint_key s spacing) (\<lambda>b.
           if \<not> b
           then (case allocate s [(''sm'', spacing)] of (s1, outer) \<Rightarrow>
                   Inr (assign s1 normalizedProps ''spacing'' (RRef outer)))
           else Inr s)
       else Inr s)"

text \<open>\<^verbatim>\<open>normalizeProps\<close>, lines 69-99: the copy, the loop, the spacing, the returned address.\<close>

definition store_normalizeProps :: "store \<Rightarrow> addr \<Rightarrow> fault + (store \<times> addr)" where
  "store_normalizeProps s props =
     and_then (deref s props) (\<lambda>obj.
       case allocate s obj of (s0, normalizedProps) \<Rightarrow>
         and_then (store_forEach (store_breakpoint_prop props normalizedProps) s0 BREAKPOINT_PROPS)
           (\<lambda>s1.
         and_then (store_spacing props normalizedProps s1) (\<lambda>s2. Inr (s2, normalizedProps))))"

section \<open>The types of the props\<close>

text \<open>
  Modelled from the spec: the declarations of \<^verbatim>\<open>GapSize\<close>, \<^verbatim>\<open>SpacingDefinition\<close> and
  \<^verbatim>\<open>FlexProps\<close> (the module \<^verbatim>\<open>types\<close> both services import) are not among the
  source files. The spec's data model gives them: a gap size is an integer from 0 to 6 (the
  zero with either sign, which TypeScript gives the one literal type \<^verbatim>\<open>0\<close>); a
  breakpoint map has keys among sm, md, lg; a spacing definition has optional gap sizes under
  all, horizontal, vertical, top, right, bottom, left; gap, direction and grow are a scalar or
  a breakpoint map of scalars; spacing is a gap size, a spacing definition or a breakpoint map
  of spacing definitions; alignItems and justifyContent are scalars; type is padding or
  margin. An optional property may be missing or hold \<^verbatim>\<open>undefined\<close>. The spec does not
  list the strings a direction or an alignment may be, so the predicate \<open>K\<close> on them is a
  parameter.
\<close>

fun is_number :: "jsval \<Rightarrow> bool" where
  "is_number (JNum n) = True"
| "is_number v = False"

fun is_keyword :: "(string \<Rightarrow> bool) \<Rightarrow> jsval \<Rightarrow> bool" where
  "is_keyword K (JStr s) = K s"
| "is_keyword K v = False"

fun is_GapSize :: "jsval \<Rightarrow> bool" where
  "is_GapSize (JNum (Dec neg s e)) = (e = 0 \<and> s \<le> (if neg then 0 else 6))"
| "is_GapSize v = False"

definition optional :: "(jsval \<Rightarrow> bool) \<Rightarrow> jsval \<Rightarrow> bool" where
  "optional P v = (v = JUndefined \<or> P v)"

fun object_of :: "string list \<Rightarrow> (jsval \<Rightarrow> bool) \<Rightarrow> jsval \<Rightarrow> bool" where
  "object_of keys P (JObj m) = list_all (\<lambda>(k, x). k \<in> set keys \<and> optional P x) m"
| "object_of keys P v = False"

definition is_SpacingDefinition :: "jsval \<Rightarrow> bool" where
  "is_SpacingDefinition =
     object_of [''all'', ''horizontal'', ''vertical'', ''top'', ''right'', ''bottom'', ''left'']
       is_GapSize"

definition is_BreakpointMap :: "(jsval \<Rightarrow> bool) \<Rightarrow> jsval \<Rightarrow> bool" where
  "is_BreakpointMap P = object_of [''sm'', ''md'', ''lg''] P"

definition FlexProps :: "(string \<Rightarrow> bool) \<Rightarrow> object \<Rightarrow> bool" where
  "FlexProps K props =
     (optional (\<lambda>v. is_GapSize v \<or> is_BreakpointMap is_GapSize v) (get_prop props ''gap'') \<and>
      optional (\<lambda>v. is_keyword K v \<or> is_BreakpointMap (is_keyword K) v)
        (get_prop props ''direction'') \<and>
      optional (\<lambda>v. is_number v \<or> is_BreakpointMap is_number v) (get_prop props ''grow'') \<and>
      optional (\<lambda>v. is_GapSize v \<or> is_SpacingDefinition v \<or>
                  is_BreakpointMap is_SpacingDefinition v) (get_prop props ''spacing'') \<and>
      optional (is_keyword K) (get_prop props ''alignItems'') \<and>
      optional (is_keyword K) (get_prop props ''justifyContent'') \<and>
      optional (\<lambda>v. v = JStr ''padding'' \<or> v = JStr ''margin'') (get_prop props ''type''))"

section \<open>The spacing declarations as the spec words them\<close>

text \<open>
  The spec's sub-resolver, for comparison with \<^verbatim>\<open>styleSpacing\<close>: each side is the first
  defined of the side, its axis and \<^verbatim>\<open>all\<close>; the sides are visited in the order top,
  right, bottom, left; a resolved side emits \<^verbatim>\<open><kind>-<side>: <gap-token>;\<close>, the token being
  the literal 0 for size 0 and the named scale token otherwise; the lines are joined by newlines.
\<close>

fun gap_size_of :: "jsval \<Rightarrow> number option" where
  "gap_size_of (JNum n) = Some n"
| "gap_size_of v = None"

fun first_defined :: "'a option list \<Rightarrow> 'a option" where
  "first_defined [] = None"
| "first_defined (Some x # xs) = Some x"
| "first_defined (None # xs) = first_defined xs"

definition gap_token :: "number \<Rightarrow> string" where
  "gap_token n = (if is_zero n then ''0'' else ''var(--gap-size-'' @ Number_toString n @ '')'')"

definition resolved_side :: "object \<Rightarrow> string \<Rightarrow> string \<Rightarrow> number option" where
  "resolved_side d side axis =
     first_defined [gap_size_of (get_prop d side), gap_size_of (get_prop d axis),
                    gap_size_of (get_prop d ''all'')]"

definition spec_spacingDeclarations :: "string \<Rightarrow> object \<Rightarrow> string" where
  "spec_spacingDeclarations kind d =
     join_nl (concat (map
       (\<lambda>(side, axis). case resolved_side d side axis of
            None \<Rightarrow> []
          | Some n \<Rightarrow> [kind @ ''-'' @ side @ '': '' @ gap_token n @ '';''])
       [(''top'', ''vertical''), (''right'', ''horizontal''),
        (''bottom'', ''vertical''), (''left'', ''horizontal'')]))"

section \<open>Notions used in the proofs\<close>

text \<open>The test of line 77: the property holds a scalar, which the normalizer wraps.\<close>

definition wraps :: "object \<Rightarrow> string \<Rightarrow> bool" where
  "wraps props k = (get_prop props k \<noteq> JUndefined \<and> typeof (get_prop props k) \<noteq> ''object'')"

text \<open>The key-presence test on an object's own properties.\<close>

definition has_bp :: "object \<Rightarrow> bool" where
  "has_bp m = (map_of m ''sm'' \<noteq> None \<or> map_of m ''md'' \<noteq> None \<or> map_of m ''lg'' \<noteq> None)"

text \<open>A record the normalizer has nothing left to do on.\<close>

definition normalized :: "object \<Rightarrow> bool" where
  "normalized q =
     (\<not> wraps q ''gap'' \<and> \<not> wraps q ''direction'' \<and> \<not> wraps q ''grow'' \<and>
      (get_prop q ''spacing'' = JUndefined \<or>
       has_breakpoint_key (get_prop q ''spacing'') = Inr True))"

subsection \<open>The output as lines\<close>

text \<open>What \<^verbatim>\<open>join\<close> puts before the lines that follow, and after the lines that precede.\<close>

definition lead :: "string list \<Rightarrow> string" where
  "lead ls = concat (map (\<lambda>l. l @ ''\<newline>'') ls)"

definition trail :: "string list \<Rightarrow> string" where
  "trail ls = concat (map (\<lambda>l. ''\<newline>'' @ l) ls)"

text \<open>A declaration as the pair of its property name and its value.\<close>

definition render :: "string \<times> string \<Rightarrow> string" where
  "render nv = fst nv @ '': '' @ snd nv @ '';''"

text \<open>The declarations of the display and of the grow, as pairs.\<close>

definition display_pair :: "Breakpoint \<Rightarrow> (string \<times> string) list" where
  "display_pair bp = (if bp = Sm then [(''display'', ''flex'')] else [])"

definition grow_pairs :: "jsval \<Rightarrow> (string \<times> string) list" where
  "grow_pairs g = (case g of JNum n \<Rightarrow> [(''flex-grow'', Number_toString n), (''flex-basis'', ''0'')] | _ \<Rightarrow> [])"

text \<open>The pairs of the spacing declarations, in the order of \<open>spec_spacingDeclarations\<close>.\<close>

definition spacing_pairs :: "string \<Rightarrow> object \<Rightarrow> (string \<times> string) list" where
  "spacing_pairs kind d =
     concat (map
       (\<lambda>(side, axis). case resolved_side d side axis of
            None \<Rightarrow> []
          | Some n \<Rightarrow> [(kind @ ''-'' @ side, gap_token n)])
       [(''top'', ''vertical''), (''right'', ''horizontal''),
        (''bottom'', ''vertical''), (''left'', ''horizontal'')])"

text \<open>A value with no colon in it, as a CSS keyword or a number is; the property names of the
  other declarations; a pair of such a name with a value that satisfies \<open>C\<close>.\<close>

definition colon_free :: "string \<Rightarrow> bool" where
  "colon_free s = (CHR '':'' \<notin> set s)"

definition line_names :: "string list" where
  "line_names = [''flex-direction'', ''align-items'', ''justify-content'', ''gap'',
     ''padding-top'', ''padding-right'', ''padding-bottom'', ''padding-left'',
     ''margin-top'', ''margin-right'', ''margin-bottom'', ''margin-left'']"

definition plain :: "(string \<Rightarrow> bool) \<Rightarrow> string \<times> string \<Rightarrow> bool" where
  "plain C nv = (fst nv \<in> set line_names \<and> C (snd nv))"

definition all_names :: "string list" where
  "all_names = ''display'' # ''flex-grow'' # ''flex-basis'' # line_names"

definition known :: "string \<times> string \<Rightarrow> bool" where
  "known nv = (fst nv \<in> set all_names \<and> CHR '':'' \<notin> set (snd nv))"

subsection \<open>The store\<close>

text \<open>What holds of the store \<open>c\<close> at every point after the copy, for the store \<open>s\<close> and
  the argument \<open>props\<close> the normalizer started from: the objects of \<open>s\<close> are as they
  were, the copy sits at the first new address, has the keys of the argument in their order
  and the argument's value under every key the normalizer does not handle.\<close>

definition frame :: "store \<Rightarrow> addr \<Rightarrow> store \<Rightarrow> bool" where
  "frame s props c =
     (props < length s \<and> length s < length c \<and> take (length s) c = s \<and>
      map fst (c ! length s) = map fst (s ! props) \<and>
      (\<forall>k. k \<notin> set (''spacing'' # BREAKPOINT_PROPS) \<longrightarrow>
           map_of (c ! length s) k = map_of (s ! props) k))"

text \<open>The store as a partial map, and the tree a value denotes in it.\<close>

definition heap_of :: "store \<Rightarrow> addr \<Rightarrow> ref_object option" where
  "heap_of s a = (if a < length s then Some (s ! a) else None)"

inductive denotes :: "(addr \<Rightarrow> ref_object option) \<Rightarrow> ref_val \<Rightarrow> jsval \<Rightarrow> bool" for h where
  d_undefined: "denotes h RUndefined JUndefined"
| d_null: "denotes h RNull JNull"
| d_bool: "denotes h (RBool b) (JBool b)"
| d_num: "denotes h (RNum n) (JNum n)"
| d_str: "denotes h (RStr x) (JStr x)"
| d_obj: "h a = Some obj \<Longrightarrow>
          list_all2 (\<lambda>kv kt. fst kv = fst kt \<and> denotes h (snd kv) (snd kt)) obj m \<Longrightarrow>
          denotes h (RRef a) (JObj m)"

definition entries :: "(addr \<Rightarrow> ref_object option) \<Rightarrow> ref_object \<Rightarrow> object \<Rightarrow> bool" where
  "entries h obj m = list_all2 (\<lambda>kv kt. fst kv = fst kt \<and> denotes h (snd kv) (snd kt)) obj m"

text \<open>The store without the record under construction, and the simulation of the tree model:
  the record under construction denotes the tree-level record.\<close>

definition hidden :: "store \<Rightarrow> addr \<Rightarrow> addr \<Rightarrow> ref_object option" where
  "hidden c n = (heap_of c)(n := None)"

definition sim :: "store \<Rightarrow> addr \<Rightarrow> store \<Rightarrow> object \<Rightarrow> bool" where
  "sim s props c m = (frame s props c \<and> entries (hidden c (length s)) (c ! length s) m)"

section \<open>Evaluation on concrete inputs\<close>

lemmas js_defs = and_then_def get_prop_def has_breakpoint_key_def coalesce_def or_else_def
  show_decimal_def show_sign_def show_nat.simps digit_def

lemmas styleFlex_defs = styleFlex_def styleFlex_styles_def tier_value_def tier_spacing_def
  pushed_def spacing_styles_def styleSpacing_def styleSpacing_parts_def side_part_def
  getGapSize_def

lemmas normalizeProps_defs = normalizeProps_def breakpoint_props_done_def normalize_spacing_def
  normalize_breakpoint_prop_def BREAKPOINT_PROPS_def

lemmas type_defs = FlexProps_def optional_def is_SpacingDefinition_def is_BreakpointMap_def

lemma replicate_numeral: "replicate (numeral k) x = x # replicate (pred_numeral k) x"
  by (simp add: numeral_eq_Suc)

text \<open>
  What JavaScript prints for 0, -0, 3, 480, 1.5, -0.000001, \<open>10^-7\<close>, \<open>2^53\<close>,
  \<open>2^63\<close>, \<open>10^21\<close> and the largest double.
\<close>

lemma Number_toString_examples:
  "Number_toString (Dec False 0 0) = ''0''"
  "Number_toString (Dec True 0 0) = ''0''"
  "Number_toString (Dec False 3 0) = ''3''"
  "Number_toString (Dec False 48 1) = ''480''"
  "Number_toString (Dec False 15 (- 1)) = ''1.5''"
  "Number_toString (Dec True 1 (- 6)) = ''-0.000001''"
  "Number_toString (Dec False 1 (- 7)) = ''1e-7''"
  "Number_toString (Dec False 9007199254740992 0) = ''9007199254740992''"
  "Number_toString (Dec False 9223372036854776 3) = ''9223372036854776000''"
  "Number_toString (Dec False 1 21) = ''1e+21''"
  "Number_toString (Dec False 17976931348623157 292) = ''1.7976931348623157e+308''"
  by (simp_all add: js_defs replicate_numeral)

section \<open>Objects as property lists\<close>

lemma get_prop_update:
  "get_prop (AList.update k v al) k' = (if k' = k then v else get_prop al k')"
  by (simp add: get_prop_def update_conv')

lemma keys_update_present:
  "map_of al k \<noteq> None \<Longrightarrow> map fst (AList.update k v al) = map fst al"
  by (induction al) auto

lemma get_prop_defined_present: "get_prop al k \<noteq> JUndefined \<Longrightarrow> map_of al k \<noteq> None"
  by (cases "map_of al k") (simp_all add: get_prop_def)

lemma same_keys_present:
  assumes "map fst np = map fst props" and "get_prop props k \<noteq> JUndefined"
  shows "map_of np k \<noteq> None"
proof -
  have "k \<in> set (map fst props)"
    using get_prop_defined_present [OF assms(2)] by (simp add: map_of_eq_None_iff)
  then have "k \<in> set (map fst np)" using assms(1) by simp
  then show ?thesis by (simp add: map_of_eq_None_iff)
qed

lemma has_breakpoint_key_obj: "has_breakpoint_key (JObj m) = Inr (has_bp m)"
  by (simp add: has_breakpoint_key_def and_then_def has_bp_def)

lemma has_breakpoint_key_Inr: "has_breakpoint_key v = Inr b \<Longrightarrow> \<exists>m. v = JObj m"
  by (cases v) (simp_all add: has_breakpoint_key_def and_then_def)

lemma has_bp_keys:
  "has_bp m = (''sm'' \<in> set (map fst m) \<or> ''md'' \<in> set (map fst m) \<or> ''lg'' \<in> set (map fst m))"
  by (simp add: has_bp_def map_of_eq_None_iff)

section \<open>What the normalizer does to each property\<close>

lemma normalize_breakpoint_prop_get:
  "get_prop (normalize_breakpoint_prop props np k) k' =
     (if k' = k \<and> wraps props k then JObj [(''sm'', get_prop props k)] else get_prop np k')"
  by (simp add: normalize_breakpoint_prop_def Let_def get_prop_update wraps_def)

lemma normalize_breakpoint_prop_keys:
  "map fst np = map fst props \<Longrightarrow>
   map fst (normalize_breakpoint_prop props np k) = map fst props"
  by (simp add: normalize_breakpoint_prop_def Let_def keys_update_present same_keys_present)

lemma normalize_breakpoint_prop_skip:
  "\<not> wraps props k \<Longrightarrow> normalize_breakpoint_prop props np k = np"
  by (auto simp add: normalize_breakpoint_prop_def Let_def wraps_def)

lemma breakpoint_props_done_get:
  "get_prop (breakpoint_props_done props) k =
     (if k \<in> set BREAKPOINT_PROPS \<and> wraps props k then JObj [(''sm'', get_prop props k)]
      else get_prop props k)"
  by (auto simp add: breakpoint_props_done_def BREAKPOINT_PROPS_def normalize_breakpoint_prop_get)

lemma breakpoint_props_done_keys: "map fst (breakpoint_props_done props) = map fst props"
  by (simp add: breakpoint_props_done_def BREAKPOINT_PROPS_def normalize_breakpoint_prop_keys)

lemma normalize_spacing_undefined:
  "get_prop props ''spacing'' = JUndefined \<Longrightarrow> normalize_spacing props np = Inr np"
  by (simp add: normalize_spacing_def)

lemma normalize_spacing_number:
  "get_prop props ''spacing'' = JNum n \<Longrightarrow>
   normalize_spacing props np =
     Inr (AList.update ''spacing'' (JObj [(''sm'', JObj [(''all'', JNum n)])]) np)"
  by (simp add: normalize_spacing_def)

lemma normalize_spacing_object:
  "get_prop props ''spacing'' = JObj m \<Longrightarrow>
   normalize_spacing props np =
     Inr (if has_bp m then np else AList.update ''spacing'' (JObj [(''sm'', JObj m)]) np)"
  by (simp add: normalize_spacing_def has_breakpoint_key_obj and_then_def)

text \<open>The four shapes of the spacing, and the exception on any other.\<close>

lemma normalizeProps_cases:
  "normalizeProps p =
     (case get_prop p ''spacing'' of
        JUndefined \<Rightarrow> Inr (breakpoint_props_done p)
      | JNum n \<Rightarrow> Inr (AList.update ''spacing'' (JObj [(''sm'', JObj [(''all'', JNum n)])])
                        (breakpoint_props_done p))
      | JObj m \<Rightarrow> Inr (if has_bp m then breakpoint_props_done p
                       else AList.update ''spacing'' (JObj [(''sm'', JObj m)])
                              (breakpoint_props_done p))
      | _ \<Rightarrow> Inl TypeError)"
  by (cases "get_prop p ''spacing''")
    (simp_all add: normalizeProps_def normalize_spacing_undefined normalize_spacing_number
      normalize_spacing_object,
     simp_all add: normalize_spacing_def has_breakpoint_key_def and_then_def)

lemma normalizeProps_other:
  assumes "normalizeProps p = Inr q" and "k \<noteq> ''spacing''"
  shows "get_prop q k = get_prop (breakpoint_props_done p) k"
  using assms by (cases "get_prop p ''spacing''")
    (auto simp: normalizeProps_cases get_prop_update split: if_splits)

lemma normalizeProps_spacing:
  assumes "normalizeProps p = Inr q"
  shows "get_prop q ''spacing'' =
     (case get_prop p ''spacing'' of
        JNum n \<Rightarrow> JObj [(''sm'', JObj [(''all'', JNum n)])]
      | JObj m \<Rightarrow> if has_bp m then JObj m else JObj [(''sm'', JObj m)]
      | _ \<Rightarrow> JUndefined)"
  using assms by (cases "get_prop p ''spacing''")
    (auto simp: normalizeProps_cases get_prop_update breakpoint_props_done_get
      BREAKPOINT_PROPS_def split: if_splits)

lemma normalizeProps_keys:
  assumes "normalizeProps p = Inr q"
  shows "map fst q = map fst p"
proof -
  have "map fst (AList.update ''spacing'' v (breakpoint_props_done p)) = map fst p"
    if "get_prop p ''spacing'' \<noteq> JUndefined" for v
    using that
    by (simp add: keys_update_present same_keys_present breakpoint_props_done_keys)
  then show ?thesis
    using assms by (cases "get_prop p ''spacing''")
      (auto simp: normalizeProps_cases breakpoint_props_done_keys split: if_splits)
qed

section \<open>A normalized record is a fixed point\<close>

lemma normalized_fixed:
  assumes "normalized q"
  shows "normalizeProps q = Inr q"
proof -
  have "breakpoint_props_done q = q"
    using assms by (simp add: normalized_def breakpoint_props_done_def BREAKPOINT_PROPS_def
        normalize_breakpoint_prop_skip)
  moreover have "normalize_spacing q q = Inr q"
  proof (cases "get_prop q ''spacing'' = JUndefined")
    case True
    then show ?thesis by (rule normalize_spacing_undefined)
  next
    case False
    then have t: "has_breakpoint_key (get_prop q ''spacing'') = Inr True"
      using assms by (simp add: normalized_def)
    then obtain m where m: "get_prop q ''spacing'' = JObj m"
      using has_breakpoint_key_Inr by blast
    with t have "has_bp m" by (simp add: has_breakpoint_key_obj)
    then show ?thesis by (simp add: normalize_spacing_object [OF m])
  qed
  ultimately show ?thesis by (simp add: normalizeProps_def)
qed

lemma wraps_done:
  "k \<in> set BREAKPOINT_PROPS \<Longrightarrow> get_prop q k = get_prop (breakpoint_props_done p) k \<Longrightarrow>
   \<not> wraps q k"
  by (simp add: breakpoint_props_done_get wraps_def)

lemma normalizeProps_normalized:
  assumes "normalizeProps p = Inr q"
  shows "normalized q"
proof -
  have "get_prop q ''spacing'' = JUndefined \<or>
        has_breakpoint_key (get_prop q ''spacing'') = Inr True"
    by (cases "get_prop p ''spacing''")
      (simp_all add: normalizeProps_spacing [OF assms] has_breakpoint_key_obj has_bp_def)
  moreover have "\<not> wraps q k" if "k \<in> set BREAKPOINT_PROPS" for k
    using that wraps_done [OF that, of q p] normalizeProps_other [OF assms, of k]
    by (auto simp: BREAKPOINT_PROPS_def)
  ultimately show ?thesis by (simp add: normalized_def BREAKPOINT_PROPS_def)
qed

lemma normalizeProps_idem: "and_then (normalizeProps p) normalizeProps = normalizeProps p"
proof (cases "normalizeProps p")
  case (Inl e)
  then show ?thesis by (simp add: and_then_def)
next
  case (Inr q)
  then show ?thesis
    using normalized_fixed [OF normalizeProps_normalized [OF Inr]] by (simp add: and_then_def)
qed

section \<open>Well-typed props\<close>

lemma is_GapSize_cases: "is_GapSize v \<Longrightarrow> \<exists>n. v = JNum n"
  by (cases v) simp_all

lemma is_number_cases: "is_number v \<Longrightarrow> \<exists>n. v = JNum n"
  by (cases v) simp_all

lemma is_keyword_cases: "is_keyword K v \<Longrightarrow> \<exists>s. v = JStr s \<and> K s"
  by (cases v) simp_all

lemma object_of_cases: "object_of keys P v \<Longrightarrow> \<exists>m. v = JObj m"
  by (cases v) simp_all

lemma object_of_absent:
  "object_of keys P (JObj m) \<Longrightarrow> k \<notin> set keys \<Longrightarrow> map_of m k = None"
  by (induction m) (auto split: if_splits)

lemma object_of_get_prop: "object_of keys P (JObj m) \<Longrightarrow> optional P (get_prop m k)"
  by (induction m) (auto simp: get_prop_def optional_def split: if_splits)

lemma optional_GapSize_cases:
  "optional is_GapSize v \<Longrightarrow> v = JUndefined \<or> (\<exists>n. v = JNum n)"
  using is_GapSize_cases by (auto simp: optional_def)

lemma BreakpointMap_no_bp: "is_BreakpointMap P (JObj m) \<Longrightarrow> \<not> has_bp m \<Longrightarrow> m = []"
  by (cases m) (auto simp: is_BreakpointMap_def has_bp_def split: if_splits)

lemma SpacingDefinition_no_bp:
  assumes "is_SpacingDefinition (JObj m)"
  shows "\<not> has_bp m"
proof -
  have "\<And>k. k \<in> {''sm'', ''md'', ''lg''} \<Longrightarrow> map_of m k = None"
    using assms unfolding is_SpacingDefinition_def by (rule object_of_absent) auto
  then show ?thesis by (simp add: has_bp_def)
qed

lemma FlexProps_spacing:
  assumes "FlexProps K p"
  shows "get_prop p ''spacing'' = JUndefined \<or>
     (\<exists>n. get_prop p ''spacing'' = JNum n \<and> is_GapSize (JNum n)) \<or>
     (\<exists>m. get_prop p ''spacing'' = JObj m \<and>
          (is_SpacingDefinition (JObj m) \<or> is_BreakpointMap is_SpacingDefinition (JObj m)))"
  using assms unfolding FlexProps_def optional_def is_SpacingDefinition_def is_BreakpointMap_def
  by (metis is_GapSize_cases object_of_cases)

lemma normalizeProps_returns: "FlexProps K p \<Longrightarrow> \<exists>q. normalizeProps p = Inr q"
  using FlexProps_spacing [of K p] by (auto simp: normalizeProps_cases)

lemma scalar_wrapped:
  assumes "optional (\<lambda>v. S v \<or> is_BreakpointMap S v) (get_prop p k)"
    and "\<And>v. S v \<Longrightarrow> typeof v \<noteq> ''object''"
    and "k \<in> set BREAKPOINT_PROPS" and "get_prop p k \<noteq> JUndefined"
  shows "is_BreakpointMap S (get_prop (breakpoint_props_done p) k)"
proof (cases "S (get_prop p k)")
  case True
  then show ?thesis
    using assms(2-4)
    by (simp add: breakpoint_props_done_get wraps_def is_BreakpointMap_def optional_def)
next
  case False
  then have b: "is_BreakpointMap S (get_prop p k)" using assms(1,4) by (simp add: optional_def)
  then obtain m where "get_prop p k = JObj m"
    unfolding is_BreakpointMap_def using object_of_cases by blast
  with b show ?thesis by (simp add: breakpoint_props_done_get wraps_def)
qed

section \<open>The spacing sides\<close>

lemma side_part_resolved:
  assumes "optional is_GapSize a" "optional is_GapSize b" "optional is_GapSize c"
  shows "side_part (JStr kind) side (coalesce (coalesce a b) c) =
     Inr (case first_defined [gap_size_of a, gap_size_of b, gap_size_of c] of
            None \<Rightarrow> []
          | Some n \<Rightarrow> [kind @ ''-'' @ side @ '': '' @ gap_token n @ '';''])"
  using assms [THEN optional_GapSize_cases]
  by (auto simp: side_part_def coalesce_def getGapSize_def and_then_def gap_token_def)

section \<open>Sequencing\<close>

lemma and_then_Inr: "(and_then r f = Inr y) = (\<exists>x. r = Inr x \<and> f x = Inr y)"
  by (cases r) (simp_all add: and_then_def)

lemma and_then_Inr_simp [simp]: "and_then (Inr x) f = f x"
  by (simp add: and_then_def)

section \<open>Joined lines\<close>

text \<open>An occurrence of a text without newline in joined lines lies within one line.\<close>

lemma join_nl_Cons: "join_nl (x # xs) = x @ trail xs"
  by (induction xs arbitrary: x) (simp_all add: trail_def)

lemma trail_cases: "trail ls = [] \<or> (\<exists>r. trail ls = CHR ''\<newline>'' # r)"
  by (cases ls) (simp_all add: trail_def)

lemma join_nl_append: "ys \<noteq> [] \<Longrightarrow> join_nl (xs @ ys) = lead xs @ join_nl ys"
proof (induction xs)
  case Nil
  then show ?case by (simp add: lead_def)
next
  case (Cons x xs)
  then obtain z zs where "xs @ ys = z # zs" by (cases "xs @ ys") auto
  with Cons show ?case by (simp add: lead_def)
qed

lemma join_nl_flatten: "ys \<noteq> [] \<Longrightarrow> join_nl (xs @ [join_nl ys]) = join_nl (xs @ ys)"
  by (simp add: join_nl_append)

lemma occurrence_in_line:
  assumes "join_nl ls = pre @ n @ post" and "CHR ''\<newline>'' \<notin> set n" and "n \<noteq> []"
  shows "\<exists>as l bs u w. ls = as @ l # bs \<and> l = u @ n @ w \<and> pre = lead as @ u \<and> post = w @ trail bs"
  using assms
proof (induction ls arbitrary: pre)
  case Nil
  then show ?case by simp
next
  case (Cons l ls)
  have j: "l @ trail ls = pre @ n @ post" using Cons.prems(1) by (simp add: join_nl_Cons)
  show ?case
  proof (cases ls)
    case Nil
    with j have "l = pre @ n @ post" by (simp add: trail_def)
    then have "l # ls = [] @ l # [] \<and> l = pre @ n @ post \<and> pre = lead [] @ pre \<and> post = post @ trail []"
      using Nil by (simp add: lead_def trail_def)
    then show ?thesis by blast
  next
    case (Cons l' ls')
    then have t: "trail ls = ''\<newline>'' @ join_nl ls" by (simp add: trail_def join_nl_Cons)
    from j t have e: "l @ ''\<newline>'' @ join_nl ls = pre @ n @ post" by simp
    then consider (left) v where "l = pre @ v" "v @ ''\<newline>'' @ join_nl ls = n @ post"
      | (right) v where "l @ v = pre" "''\<newline>'' @ join_nl ls = v @ n @ post" "v \<noteq> []"
      by (auto simp: append_eq_append_conv2) (metis append.right_neutral)
    then show ?thesis
    proof cases
      case left
      from left(2) consider (inside) w where "v = n @ w" "w @ ''\<newline>'' @ join_nl ls = post"
        | (across) w where "v @ w = n" "''\<newline>'' @ join_nl ls = w @ post" "w \<noteq> []"
        by (auto simp: append_eq_append_conv2) (metis append.right_neutral)
      then show ?thesis
      proof cases
        case inside
        then have "l # ls = [] @ l # ls \<and> l = pre @ n @ w \<and> pre = lead [] @ pre \<and> post = w @ trail ls"
          using left(1) t inside by (simp add: lead_def)
        then show ?thesis by blast
      next
        case across
        then have "hd w = CHR ''\<newline>''" by (cases w) auto
        then have "CHR ''\<newline>'' \<in> set n" using across(1,3) by (cases w) auto
        then show ?thesis using Cons.prems(2) by simp
      qed
    next
      case right
      then obtain v' where v: "v = ''\<newline>'' @ v'" by (cases v) auto
      with right(2) have "join_nl ls = v' @ n @ post" by simp
      from Cons.IH [OF this Cons.prems(2,3)] obtain as l0 bs u w where
        d: "ls = as @ l0 # bs" "l0 = u @ n @ w" "v' = lead as @ u" "post = w @ trail bs" by blast
      then have "l # ls = (l # as) @ l0 # bs \<and> l0 = u @ n @ w \<and> pre = lead (l # as) @ u \<and> post = w @ trail bs"
        using right(1) v by (simp add: lead_def)
      then show ?thesis by blast
    qed
  qed
qed

lemma unique_position:
  assumes "xs @ x # ys = A @ g # R" and "P x" and "\<forall>a\<in>set A. \<not> P a" and "\<forall>r\<in>set R. \<not> P r"
  shows "xs = A \<and> x = g \<and> ys = R"
  using assms
proof (induction A arbitrary: xs)
  case Nil
  then show ?case by (cases xs) auto
next
  case (Cons a A)
  then show ?case by (cases xs) auto
qed

section \<open>Digits\<close>

lemma digit_set: "d < 10 \<Longrightarrow> digit d \<in> set ''0123456789''"
  unfolding digit_def by (rule nth_mem) simp

lemma show_nat_set: "set (show_nat n) \<subseteq> set ''0123456789''"
proof (induction n rule: show_nat.induct)
  case (1 n)
  show ?case
  proof (cases "n < 10")
    case True
    then show ?thesis using digit_set [of n] by (subst show_nat.simps) simp
  next
    case False
    then show ?thesis
      using "1" digit_set [of "n mod 10"] by (subst show_nat.simps) simp
  qed
qed

lemma show_decimal_set:
  assumes "set ds \<subseteq> A" and "\<And>i. set (show_nat i) \<subseteq> A" and "set ''0.e+-'' \<subseteq> A"
  shows "set (show_decimal ds n) \<subseteq> A"
proof -
  have "set (take i ds) \<subseteq> A" "set (drop i ds) \<subseteq> A" for i
    using assms(1) set_take_subset [of i ds] set_drop_subset [of i ds] by blast+
  moreover have "set (replicate i CHR ''0'') \<subseteq> A" for i
    using assms(3) by auto
  ultimately show ?thesis
    using assms unfolding show_decimal_def Let_def by simp
qed

lemma Number_toString_set: "set (Number_toString x) \<subseteq> set ''0123456789.e+-InfityNa''"
proof (cases x)
  case NaN
  then show ?thesis by simp
next
  case (Infinity neg)
  then show ?thesis by (cases neg) (simp_all add: show_sign_def)
next
  case (Dec neg s e)
  have "set ''0123456789'' \<subseteq> set ''0123456789.e+-InfityNa''" by simp
  then have d: "set (show_nat i) \<subseteq> set ''0123456789.e+-InfityNa''" for i
    using show_nat_set [of i] by (rule order_trans [rotated])
  have m: "set (show_decimal (show_nat s) n) \<subseteq> set ''0123456789.e+-InfityNa''" for n
    by (rule show_decimal_set [OF d d]) simp
  show ?thesis
  proof (cases "s = 0")
    case True
    then show ?thesis using Dec by simp
  next
    case False
    then show ?thesis using Dec m by (cases neg) (simp_all add: show_sign_def)
  qed
qed

lemma Number_toString_colon_free: "CHR '':'' \<notin> set (Number_toString n)"
proof -
  have "CHR '':'' \<notin> set ''0123456789.e+-InfityNa''" by simp
  then show ?thesis using Number_toString_set [of n] by blast
qed

lemma Number_toString_one_token:
  "CHR '';'' \<notin> set (Number_toString n) \<and> CHR ''\<newline>'' \<notin> set (Number_toString n)"
proof -
  have "CHR '';'' \<notin> set ''0123456789.e+-InfityNa''"
    "CHR ''\<newline>'' \<notin> set ''0123456789.e+-InfityNa''" by simp_all
  then show ?thesis using Number_toString_set [of n] by blast
qed

lemma gap_token_colon_free: "colon_free (gap_token n)"
  using Number_toString_colon_free [of n] by (simp add: gap_token_def colon_free_def)

lemma gap_var_colon_free: "colon_free (''var(--gap-size-'' @ Number_toString n @ '')'')"
  using Number_toString_colon_free [of n] by (simp add: colon_free_def)

section \<open>The values at a tier, on well-typed props\<close>

lemma BreakpointMap_get_prop: "is_BreakpointMap P (JObj m) \<Longrightarrow> optional P (get_prop m k)"
  unfolding is_BreakpointMap_def by (rule object_of_get_prop)

lemma tier_value_typed:
  assumes "optional (\<lambda>v. S v \<or> is_BreakpointMap S v) v"
    and "\<And>x. S x \<Longrightarrow> typeof x \<noteq> ''object''" and "t \<noteq> ''undefined''"
  shows "\<exists>r. tier_value bp t v = Inr r \<and> optional S r"
proof -
  consider "v = JUndefined" | "S v" | m where "v = JObj m" "is_BreakpointMap S (JObj m)"
    using assms(1) object_of_cases unfolding optional_def is_BreakpointMap_def by blast
  then show ?thesis
  proof cases
    case 1
    then show ?thesis using assms(3) by (auto simp: tier_value_def optional_def)
  next
    case 2
    then show ?thesis using assms(2) by (auto simp: tier_value_def optional_def)
  next
    case 3
    then show ?thesis
      using BreakpointMap_get_prop [of S m "bp_key bp"]
      by (simp add: tier_value_def)
  qed
qed

lemma tier_spacing_typed:
  assumes "FlexProps K p"
  shows "\<exists>r. tier_spacing bp (get_prop p ''spacing'') = Inr r \<and> optional is_SpacingDefinition r"
proof -
  from FlexProps_spacing [OF assms]
  consider "get_prop p ''spacing'' = JUndefined" | n where "get_prop p ''spacing'' = JNum n"
    | m where "get_prop p ''spacing'' = JObj m" "is_SpacingDefinition (JObj m)"
    | m where "get_prop p ''spacing'' = JObj m" "is_BreakpointMap is_SpacingDefinition (JObj m)"
    by blast
  then show ?thesis
  proof cases
    case 1
    then show ?thesis by (simp add: tier_spacing_def optional_def)
  next
    case 2
    then show ?thesis by (simp add: tier_spacing_def optional_def)
  next
    case 3
    then show ?thesis
      using SpacingDefinition_no_bp [of m]
      by (simp add: tier_spacing_def has_breakpoint_key_obj and_then_def optional_def)
  next
    case 4
    then show ?thesis
      using BreakpointMap_get_prop [of is_SpacingDefinition m "bp_key bp"]
      by (simp add: tier_spacing_def has_breakpoint_key_obj and_then_def optional_def)
  qed
qed

section \<open>The spacing declarations\<close>

lemma styleSpacing_spec:
  assumes "is_SpacingDefinition (JObj d)"
  shows "styleSpacing (JStr kind) (JObj d) = Inr (spec_spacingDeclarations kind d)"
proof -
  have o: "\<And>k. optional is_GapSize (get_prop d k)"
    using assms unfolding is_SpacingDefinition_def by (rule object_of_get_prop)
  show ?thesis
    by (simp add: styleSpacing_def styleSpacing_parts_def and_then_def Let_def
        side_part_resolved [OF o o o] spec_spacingDeclarations_def resolved_side_def)
qed

lemma spec_spacing_render:
  "spec_spacingDeclarations kind d = join_nl (map render (spacing_pairs kind d))"
  by (simp add: spec_spacingDeclarations_def spacing_pairs_def render_def split: option.splits)

lemma spacing_pairs_plain:
  assumes "kind = ''padding'' \<or> kind = ''margin''" and "\<And>n. C (gap_token n)"
  shows "list_all (plain C) (spacing_pairs kind d)"
  using assms
  by (auto simp: spacing_pairs_def plain_def line_names_def split: option.splits)

lemma render_nonempty: "render nv \<noteq> []"
  by (simp add: render_def)

lemma join_render_empty: "(join_nl (map render P) = []) = (P = [])"
  by (cases P) (simp_all add: join_nl_Cons render_nonempty)

section \<open>The declarations of well-typed props\<close>

text \<open>On well-typed props the resolver returns the joined rendering of a list of pairs: the
  display at sm, then direction and alignments, then the grow with its basis, then the gap and
  the spacing.\<close>

lemma keyword_piece:
  assumes "optional (is_keyword K) d" and "\<And>s. K s \<Longrightarrow> C s"
    and "name \<in> set line_names"
  shows "\<exists>P. (if truthy d then pushed name d else Inr []) = Inr (map render P) \<and>
             list_all (plain C) P"
proof -
  consider "d = JUndefined" | s where "d = JStr s" "K s"
    using assms(1) is_keyword_cases by (auto simp: optional_def)
  then show ?thesis
  proof cases
    case 1
    then have "(if truthy d then pushed name d else Inr []) = Inr (map render []) \<and>
        list_all (plain C) []"
      by simp
    then show ?thesis by blast
  next
    case 2
    show ?thesis
    proof (cases "s = []")
      case True
      with 2 have "(if truthy d then pushed name d else Inr []) = Inr (map render []) \<and>
          list_all (plain C) []"
        by simp
      then show ?thesis by blast
    next
      case False
      with 2 assms(2,3) have "(if truthy d then pushed name d else Inr []) = Inr (map render [(name, s)])
          \<and> list_all (plain C) [(name, s)]"
        by (simp add: pushed_def render_def plain_def)
      then show ?thesis by blast
    qed
  qed
qed

lemma gap_piece:
  assumes "optional is_GapSize g" and "\<And>n. C (''var(--gap-size-'' @ Number_toString n @ '')'')"
  shows "\<exists>P. (if g \<noteq> JUndefined
             then and_then (to_string g) (\<lambda>s. Inr [''gap: var(--gap-size-'' @ s @ '');''])
             else Inr []) = Inr (map render P) \<and> list_all (plain C) P"
proof -
  consider "g = JUndefined" | n where "g = JNum n"
    using optional_GapSize_cases [OF assms(1)] by blast
  then show ?thesis
  proof cases
    case 1
    then have "(if g \<noteq> JUndefined
             then and_then (to_string g) (\<lambda>s. Inr [''gap: var(--gap-size-'' @ s @ '');''])
             else Inr []) = Inr (map render []) \<and> list_all (plain C) []" by simp
    then show ?thesis by blast
  next
    case 2
    then have "(if g \<noteq> JUndefined
             then and_then (to_string g) (\<lambda>s. Inr [''gap: var(--gap-size-'' @ s @ '');''])
             else Inr []) = Inr (map render [(''gap'', ''var(--gap-size-'' @ Number_toString n @ '')'')])
           \<and> list_all (plain C) [(''gap'', ''var(--gap-size-'' @ Number_toString n @ '')'')]"
      using assms(2) [of n] by (simp add: render_def plain_def line_names_def)
    then show ?thesis by blast
  qed
qed

lemma spacing_piece:
  assumes "optional is_SpacingDefinition sp" and "FlexProps K p" and "\<And>n. C (gap_token n)"
  shows "\<exists>P. spacing_styles p sp = Inr (if P = [] then [] else [join_nl (map render P)])
             \<and> list_all (plain C) P"
proof -
  have "get_prop p ''type'' = JUndefined \<or> get_prop p ''type'' = JStr ''padding''
        \<or> get_prop p ''type'' = JStr ''margin''"
    using assms(2) by (auto simp: FlexProps_def optional_def)
  then obtain kind where k: "or_else (get_prop p ''type'') (JStr ''padding'') = JStr kind"
      "kind = ''padding'' \<or> kind = ''margin''"
    by (auto simp: or_else_def)
  consider "sp = JUndefined" | d where "sp = JObj d" "is_SpacingDefinition (JObj d)"
    using assms(1) object_of_cases unfolding optional_def is_SpacingDefinition_def by blast
  then show ?thesis
  proof cases
    case 1
    then have "spacing_styles p sp = Inr (if [] = [] then [] else [join_nl (map render [])])
             \<and> list_all (plain C) []" by (simp add: spacing_styles_def)
    then show ?thesis by blast
  next
    case 2
    let ?P = "spacing_pairs kind d"
    have "spacing_styles p sp = Inr (if ?P = [] then [] else [join_nl (map render ?P)])"
      using 2 k(1)
      by (simp add: spacing_styles_def styleSpacing_spec spec_spacing_render join_render_empty)
    then show ?thesis using spacing_pairs_plain [where C = C, OF k(2) assms(3)] by blast
  qed
qed

lemma styleFlex_typed:
  assumes "FlexProps K p" and "\<And>s. K s \<Longrightarrow> C s"
    and "\<And>n. C (''var(--gap-size-'' @ Number_toString n @ '')'')" and "\<And>n. C (gap_token n)"
  shows "\<exists>g A B. tier_value bp ''number'' (get_prop p ''grow'') = Inr g \<and> optional is_number g \<and>
           styleFlex bp p = Inr (join_nl (map render (display_pair bp @ A @ grow_pairs g @ B))) \<and>
           list_all (plain C) A \<and> list_all (plain C) B"
proof -
  have kw: "\<And>x. is_keyword K x \<Longrightarrow> typeof x \<noteq> ''object''"
    using is_keyword_cases by fastforce
  have gs: "\<And>x. is_GapSize x \<Longrightarrow> typeof x \<noteq> ''object''"
    using is_GapSize_cases by fastforce
  have nm: "\<And>x. is_number x \<Longrightarrow> typeof x \<noteq> ''object''"
    using is_number_cases by fastforce
  obtain direction where d: "tier_value bp ''string'' (get_prop p ''direction'') = Inr direction"
      "optional (is_keyword K) direction"
    using tier_value_typed [of "is_keyword K" "get_prop p ''direction''" "''string''" bp] kw assms(1)
    by (auto simp: FlexProps_def)
  obtain gap where g: "tier_value bp ''number'' (get_prop p ''gap'') = Inr gap"
      "optional is_GapSize gap"
    using tier_value_typed [of is_GapSize "get_prop p ''gap''" "''number''" bp] gs assms(1)
    by (auto simp: FlexProps_def)
  obtain grow where r: "tier_value bp ''number'' (get_prop p ''grow'') = Inr grow"
      "optional is_number grow"
    using tier_value_typed [of is_number "get_prop p ''grow''" "''number''" bp] nm assms(1)
    by (auto simp: FlexProps_def)
  have "optional (\<lambda>v. is_keyword K v \<or> is_BreakpointMap (is_keyword K) v) (get_prop p ''alignItems'')"
    using assms(1) by (auto simp: FlexProps_def optional_def)
  then obtain alignItems where a: "tier_value bp ''string'' (get_prop p ''alignItems'') = Inr alignItems"
      "optional (is_keyword K) alignItems"
    using tier_value_typed [of "is_keyword K" "get_prop p ''alignItems''" "''string''" bp] kw
    by auto
  have "optional (\<lambda>v. is_keyword K v \<or> is_BreakpointMap (is_keyword K) v) (get_prop p ''justifyContent'')"
    using assms(1) by (auto simp: FlexProps_def optional_def)
  then obtain justifyContent where j:
      "tier_value bp ''string'' (get_prop p ''justifyContent'') = Inr justifyContent"
      "optional (is_keyword K) justifyContent"
    using tier_value_typed [of "is_keyword K" "get_prop p ''justifyContent''" "''string''" bp] kw
    by auto
  obtain spacing where s: "tier_spacing bp (get_prop p ''spacing'') = Inr spacing"
      "optional is_SpacingDefinition spacing"
    using tier_spacing_typed [OF assms(1)] by blast
  obtain P1 where p1: "(if truthy direction then pushed ''flex-direction'' direction else Inr [])
      = Inr (map render P1)" "list_all (plain C) P1"
    using keyword_piece [where K = K and C = C and name = "''flex-direction''", OF d(2) assms(2)] by (auto simp: line_names_def)
  obtain P2 where p2: "(if truthy alignItems then pushed ''align-items'' alignItems else Inr [])
      = Inr (map render P2)" "list_all (plain C) P2"
    using keyword_piece [where K = K and C = C and name = "''align-items''", OF a(2) assms(2)] by (auto simp: line_names_def)
  obtain P3 where p3: "(if truthy justifyContent then pushed ''justify-content'' justifyContent else Inr [])
      = Inr (map render P3)" "list_all (plain C) P3"
    using keyword_piece [where K = K and C = C and name = "''justify-content''", OF j(2) assms(2)] by (auto simp: line_names_def)
  obtain P4 where p4: "(if gap \<noteq> JUndefined
             then and_then (to_string gap) (\<lambda>s. Inr [''gap: var(--gap-size-'' @ s @ '');''])
             else Inr []) = Inr (map render P4)" "list_all (plain C) P4"
    using gap_piece [where C = C, OF g(2) assms(3)] by blast
  obtain P5 where p5: "spacing_styles p spacing = Inr (if P5 = [] then [] else [join_nl (map render P5)])"
      "list_all (plain C) P5"
    using spacing_piece [where C = C, OF s(2) assms(1) assms(4)] by blast
  have gc: "grow = JUndefined \<or> (\<exists>n. grow = JNum n)"
    using r(2) is_number_cases by (auto simp: optional_def)
  have st: "styleFlex_styles bp p =
      Inr (map render (display_pair bp @ (P1 @ P2 @ P3) @ grow_pairs grow @ P4)
           @ (if P5 = [] then [] else [join_nl (map render P5)]))"
    unfolding styleFlex_styles_def d(1) g(1) r(1) a(1) j(1) s(1) p1(1) p2(1) p3(1) p4(1) p5(1)
      and_then_Inr_simp
    using gc by (auto simp: pushed_def grow_pairs_def render_def display_pair_def)
  have "styleFlex bp p =
      Inr (join_nl (map render (display_pair bp @ (P1 @ P2 @ P3) @ grow_pairs grow @ (P4 @ P5))))"
  proof (cases "P5 = []")
    case True
    then show ?thesis by (simp add: styleFlex_def st)
  next
    case False
    then have "map render P5 \<noteq> []" by simp
    from join_nl_flatten [OF this, of "map render (display_pair bp @ (P1 @ P2 @ P3) @ grow_pairs grow @ P4)"]
    show ?thesis
      using False by (simp add: styleFlex_def st)
  qed
  with r p1(2) p2(2) p3(2) p4(2) p5(2) show ?thesis
    by (intro exI [of _ grow] exI [of _ "P1 @ P2 @ P3"] exI [of _ "P4 @ P5"]) simp
qed

lemma styleFlex_returns: "FlexProps K p \<Longrightarrow> \<exists>out. styleFlex bp p = Inr out"
  using styleFlex_typed [where C = "\<lambda>s. True" and K = K and p = p and bp = bp] by auto

section \<open>The array of styles, on any props\<close>

lemma styleFlex_styles_shape:
  assumes "styleFlex_styles bp p = Inr styles"
  obtains grow X sg Y where
    "tier_value bp ''number'' (get_prop p ''grow'') = Inr grow"
    "(if grow \<noteq> JUndefined then pushed ''flex-grow'' grow else Inr []) = Inr sg"
    "styles = (if bp = Sm then [''display: flex;''] else []) @ X @
              (if grow \<noteq> JUndefined then sg @ [''flex-basis: 0;''] else []) @ Y"
proof -
  from assms obtain direction gap grow alignItems justifyContent spacing sd sa sj sg sgap ssp where
    "tier_value bp ''number'' (get_prop p ''grow'') = Inr grow"
    "(if grow \<noteq> JUndefined then pushed ''flex-grow'' grow else Inr []) = Inr sg"
    "styles = (if bp = Sm then [''display: flex;''] else []) @ sd @ sa @ sj @
              (if grow \<noteq> JUndefined then sg @ [''flex-basis: 0;''] else []) @ sgap @ ssp"
    unfolding styleFlex_styles_def and_then_Inr by blast
  then show ?thesis using that [of grow sg "sd @ sa @ sj" "sgap @ ssp"] by simp
qed

lemma styleFlex_sm_prefix:
  assumes "styleFlex Sm p = Inr out"
  shows "prefix ''display: flex;'' out"
proof -
  from assms obtain styles where s: "styleFlex_styles Sm p = Inr styles" "out = join_nl styles"
    by (auto simp: styleFlex_def and_then_Inr)
  obtain grow X sg Y where
    "styles = (if Sm = Sm then [''display: flex;''] else []) @ X @
              (if grow \<noteq> JUndefined then sg @ [''flex-basis: 0;''] else []) @ Y"
    by (rule styleFlex_styles_shape [OF s(1)])
  then have "styles = ''display: flex;'' #
      (X @ (if grow \<noteq> JUndefined then sg @ [''flex-basis: 0;''] else []) @ Y)"
    by simp
  with s(2) show ?thesis by (simp only: join_nl_Cons prefixI)
qed

lemma styleFlex_grow_pair:
  assumes "styleFlex bp p = Inr out" and "tier_value bp ''number'' (get_prop p ''grow'') = Inr g"
    and "g \<noteq> JUndefined"
  shows "\<exists>s. to_string g = Inr s \<and> sublist (''flex-grow: '' @ s @ '';\<newline>flex-basis: 0;'') out"
proof -
  from assms(1) obtain styles where s: "styleFlex_styles bp p = Inr styles" "out = join_nl styles"
    by (auto simp: styleFlex_def and_then_Inr)
  obtain grow X sg Y where
    x0: "tier_value bp ''number'' (get_prop p ''grow'') = Inr grow"
      "(if grow \<noteq> JUndefined then pushed ''flex-grow'' grow else Inr []) = Inr sg"
      "styles = (if bp = Sm then [''display: flex;''] else []) @ X @
              (if grow \<noteq> JUndefined then sg @ [''flex-basis: 0;''] else []) @ Y"
    by (rule styleFlex_styles_shape [OF s(1)])
  from x0(1) assms(2) have "grow = g" by simp
  with x0(2,3) assms(3) have
    x: "pushed ''flex-grow'' g = Inr sg"
      "styles = (if bp = Sm then [''display: flex;''] else []) @ X @ (sg @ [''flex-basis: 0;'']) @ Y"
    by simp_all
  from x(1) obtain t where t: "to_string g = Inr t" "sg = [''flex-grow: '' @ t @ '';'']"
    by (auto simp: pushed_def and_then_Inr)
  define D where "D = (if bp = Sm then [''display: flex;''] else []) @ X"
  have "styles = D @ (''flex-grow: '' @ t @ '';'') # ''flex-basis: 0;'' # Y"
    using x(2) t(2) by (simp add: D_def)
  then have "out = lead D @ (''flex-grow: '' @ t @ '';\<newline>flex-basis: 0;'') @ trail Y"
    using s(2) by (simp add: join_nl_append join_nl_Cons trail_def)
  then have "sublist (''flex-grow: '' @ t @ '';\<newline>flex-basis: 0;'') out"
    unfolding sublist_def by blast
  with t(1) show ?thesis by blast
qed

section \<open>Searching the output\<close>

lemma plain_known: "plain colon_free nv \<Longrightarrow> known nv"
  by (simp add: plain_def known_def all_names_def colon_free_def)

lemma grow_pairs_known: "list_all known (grow_pairs g)"
  using Number_toString_colon_free by (cases g) (simp_all add: grow_pairs_def known_def all_names_def)

lemma all_names_colon_free: "name \<in> set all_names \<Longrightarrow> CHR '':'' \<notin> set name"
  by (auto simp: all_names_def line_names_def)

lemma render_colon:
  assumes "known (name, value)" and "render (name, value) = a @ CHR '':'' # b"
  shows "a = name \<and> b = '' '' @ value @ '';''"
proof -
  have "CHR '':'' \<notin> set name" "CHR '':'' \<notin> set ('' '' @ value @ '';'')"
    using assms(1) all_names_colon_free by (auto simp: known_def)
  moreover have "name @ CHR '':'' # ('' '' @ value @ '';'') = a @ CHR '':'' # b"
    using assms(2) by (simp add: render_def)
  ultimately show ?thesis by (simp add: append_Cons_eq_iff)
qed

lemma no_display_suffix:
  "name \<in> set all_names \<Longrightarrow> name \<noteq> ''display'' \<Longrightarrow> \<not> suffix ''display'' name"
  by (auto simp: all_names_def line_names_def suffix_to_prefix)

lemma grow_suffix:
  assumes "name \<in> set all_names" and "name = u @ ''flex-grow''"
  shows "name = ''flex-grow'' \<and> u = []"
proof -
  have "suffix ''flex-grow'' name" using assms(2) by (simp add: suffix_def)
  with assms(1) have "name = ''flex-grow''"
    by (auto simp: all_names_def line_names_def suffix_to_prefix)
  with assms(2) show ?thesis by simp
qed

lemma no_display_in_line:
  assumes "known nv" and "fst nv \<noteq> ''display''"
  shows "\<not> sublist ''display: flex;'' (render nv)"
proof
  assume "sublist ''display: flex;'' (render nv)"
  then obtain u w where "render nv = u @ ''display: flex;'' @ w" by (auto simp: sublist_def)
  then have "render (fst nv, snd nv) = (u @ ''display'') @ CHR '':'' # ('' flex;'' @ w)" by simp
  from render_colon [OF _ this] assms(1) have "fst nv = u @ ''display''" by simp
  then have "suffix ''display'' (fst nv)" by (simp add: suffix_def)
  then show False using assms no_display_suffix by (simp add: known_def)
qed

lemma no_display_in_lines:
  assumes "list_all (\<lambda>nv. known nv \<and> fst nv \<noteq> ''display'') L"
  shows "\<not> sublist ''display: flex;'' (join_nl (map render L))"
proof
  assume "sublist ''display: flex;'' (join_nl (map render L))"
  then obtain pre post where "join_nl (map render L) = pre @ ''display: flex;'' @ post"
    by (auto simp: sublist_def)
  from occurrence_in_line [OF this] obtain as l bs u w where
    "map render L = as @ l # bs" "l = u @ ''display: flex;'' @ w" by auto
  then obtain nv where "nv \<in> set L" "render nv = u @ ''display: flex;'' @ w"
    by (metis (no_types, lifting) imageE in_set_conv_decomp list.set_map)
  then show False
    using no_display_in_line [of nv] assms by (auto simp: list_all_iff sublist_def)
qed

lemma styleFlex_no_display:
  assumes "FlexProps K p" and "\<And>s. K s \<Longrightarrow> colon_free s" and "bp \<noteq> Sm"
    and "styleFlex bp p = Inr out"
  shows "\<not> sublist ''display: flex;'' out"
proof -
  from styleFlex_typed [where C = colon_free, OF assms(1,2) gap_var_colon_free gap_token_colon_free, of bp]
  obtain g A B where
    t: "styleFlex bp p = Inr (join_nl (map render (display_pair bp @ A @ grow_pairs g @ B)))"
      "list_all (plain colon_free) A" "list_all (plain colon_free) B"
    by blast
  have "list_all (\<lambda>nv. known nv \<and> fst nv \<noteq> ''display'') A"
    "list_all (\<lambda>nv. known nv \<and> fst nv \<noteq> ''display'') B"
    using t(2,3) plain_known by (auto simp: list_all_iff plain_def line_names_def)
  moreover have "list_all (\<lambda>nv. known nv \<and> fst nv \<noteq> ''display'') (grow_pairs g)"
    using grow_pairs_known [of g] by (cases g) (simp_all add: grow_pairs_def)
  ultimately have "list_all (\<lambda>nv. known nv \<and> fst nv \<noteq> ''display'')
      (display_pair bp @ A @ grow_pairs g @ B)"
    using assms(3) by (simp add: display_pair_def)
  from no_display_in_lines [OF this] show ?thesis using t(1) assms(4) by simp
qed

lemma grow_line_position:
  assumes "La @ nv # Lb = D @ A @ grow_pairs g @ B" and "fst nv = ''flex-grow''"
    and "\<forall>a\<in>set (D @ A). fst a \<noteq> ''flex-grow''" and "\<forall>a\<in>set B. fst a \<noteq> ''flex-grow''"
  shows "\<exists>n. g = JNum n \<and> nv = (''flex-grow'', Number_toString n) \<and>
             Lb = (''flex-basis'', ''0'') # B"
proof (cases "\<exists>n. g = JNum n")
  case True
  then obtain n where n: "g = JNum n" by blast
  then have "La @ nv # Lb = (D @ A) @ (''flex-grow'', Number_toString n) # ((''flex-basis'', ''0'') # B)"
    using assms(1) by (simp add: grow_pairs_def)
  from unique_position [OF this, of "\<lambda>x. fst x = ''flex-grow''"] assms(2,3,4) n
  show ?thesis by auto
next
  case False
  then have "grow_pairs g = []" by (cases g) (simp_all add: grow_pairs_def)
  then have "La @ nv # Lb = (D @ A) @ B" using assms(1) by simp
  moreover have "nv \<in> set (La @ nv # Lb)" by simp
  ultimately have "nv \<in> set ((D @ A) @ B)" by (simp only:)
  then show ?thesis using assms(2,3,4) by auto
qed

lemma styleFlex_grow_only_paired:
  assumes "FlexProps K p" and "\<And>s. K s \<Longrightarrow> colon_free s"
    and "styleFlex bp p = Inr (pre @ ''flex-grow:'' @ post)"
  shows "\<exists>x rest. tier_value bp ''number'' (get_prop p ''grow'') = Inr (JNum x) \<and>
           post = '' '' @ Number_toString x @ '';\<newline>flex-basis: 0;'' @ rest \<and>
           (rest = [] \<or> (\<exists>r. rest = CHR ''\<newline>'' # r))"
proof -
  from styleFlex_typed [where C = colon_free, OF assms(1,2) gap_var_colon_free gap_token_colon_free, of bp]
  obtain g A B where
    t: "styleFlex bp p = Inr (join_nl (map render (display_pair bp @ A @ grow_pairs g @ B)))"
      "list_all (plain colon_free) A" "list_all (plain colon_free) B"
    and tv: "tier_value bp ''number'' (get_prop p ''grow'') = Inr g"
    by blast
  define L where "L = display_pair bp @ A @ grow_pairs g @ B"
  have j: "join_nl (map render L) = pre @ ''flex-grow:'' @ post"
    using t(1) assms(3) by (simp add: L_def)
  have nl: "CHR ''\<newline>'' \<notin> set ''flex-grow:''" and ne: "''flex-grow:'' \<noteq> []"
    by simp_all
  from occurrence_in_line [OF j nl ne] obtain as l bs u w where
    o: "map render L = as @ l # bs" "l = u @ ''flex-grow:'' @ w" "post = w @ trail bs"
    by blast
  have "\<exists>us vs. L = us @ vs \<and> as = map render us \<and> l # bs = map render vs"
    using o(1) by (simp only: map_eq_append_conv)
  then obtain La R where
    d0: "L = La @ R" "as = map render La" "l # bs = map render R"
    by iprover
  have "\<exists>z zs. R = z # zs \<and> l = render z \<and> bs = map render zs"
    using d0(3) by (simp only: Cons_eq_map_conv)
  then obtain nv Lb where d1: "R = nv # Lb" "l = render nv" "bs = map render Lb"
    by iprover
  have d: "La @ nv # Lb = display_pair bp @ A @ grow_pairs g @ B"
    using d0(1) d1(1) by (simp add: L_def)
  have kA: "\<forall>a\<in>set (display_pair bp @ A). known a \<and> fst a \<noteq> ''flex-grow''"
    using t(2) plain_known
    by (auto simp: list_all_iff plain_def line_names_def display_pair_def known_def all_names_def)
  have kB: "\<forall>a\<in>set B. known a \<and> fst a \<noteq> ''flex-grow''"
    using t(3) plain_known by (auto simp: list_all_iff plain_def line_names_def)
  have kG: "\<forall>a\<in>set (grow_pairs g). known a"
    using grow_pairs_known [of g] by (simp add: list_all_iff)
  have "nv \<in> set (La @ nv # Lb)" by simp
  then have "nv \<in> set ((display_pair bp @ A) @ grow_pairs g @ B)" using d by (simp only: append_assoc)
  then have kn: "known nv" using kA kB kG by auto
  have c: "render (fst nv, snd nv) = (u @ ''flex-grow'') @ CHR '':'' # w"
    using d1(2) o(2) by simp
  from render_colon [OF _ c] kn have n: "fst nv = u @ ''flex-grow''" "w = '' '' @ snd nv @ '';''"
    by simp_all
  from grow_suffix [OF _ n(1)] kn have fg: "fst nv = ''flex-grow''" by (simp add: known_def)
  from grow_line_position [OF d fg] kA kB obtain n' where
    gn: "g = JNum n'" "nv = (''flex-grow'', Number_toString n')" "Lb = (''flex-basis'', ''0'') # B"
    by blast
  then have "post = '' '' @ Number_toString n' @ '';\<newline>flex-basis: 0;'' @ trail (map render B)"
    using o(3) d1(3) n(2) by (simp add: trail_def render_def)
  with tv gn(1) trail_cases [of "map render B"] show ?thesis by blast
qed

section \<open>The store after normalization\<close>

lemma read_prop_defined_present: "read_prop al k \<noteq> RUndefined \<Longrightarrow> map_of al k \<noteq> None"
  by (cases "map_of al k") (simp_all add: read_prop_def)

lemma frame_initial: "props < length s \<Longrightarrow> frame s props (s @ [s ! props])"
  by (simp add: frame_def)

lemma frame_deref: "frame s props c \<Longrightarrow> deref c props = Inr (s ! props)"
proof -
  assume f: "frame s props c"
  then have "props < length s" "length s < length c" "take (length s) c = s"
    by (simp_all add: frame_def)
  then have "c ! props = s ! props" by (metis nth_take)
  with f show ?thesis by (simp add: deref_def frame_def)
qed

lemma frame_old: "frame s props c \<Longrightarrow> a < length s \<Longrightarrow> deref c a = Inr (s ! a)"
proof -
  assume f: "frame s props c" and a: "a < length s"
  then have "length s < length c" "take (length s) c = s"
    by (simp_all add: frame_def)
  then have "c ! a = s ! a" using a by (metis nth_take)
  with f a show ?thesis by (simp add: deref_def frame_def)
qed

lemma frame_nth: "frame s props c \<Longrightarrow> a < length s \<Longrightarrow> c ! a = s ! a"
proof -
  assume f: "frame s props c" and a: "a < length s"
  then have "take (length s) c = s" by (simp add: frame_def)
  then show ?thesis using a by (metis nth_take)
qed

lemma frame_assign:
  assumes "frame s props c" and "k \<in> set (''spacing'' # BREAKPOINT_PROPS)"
    and "read_prop (s ! props) k \<noteq> RUndefined"
  shows "frame s props (assign (c @ new) (length s) k v)"
proof -
  let ?np = "length s"
  from assms(1) have f: "props < length s" "?np < length c" "take ?np c = s"
    "map fst (c ! ?np) = map fst (s ! props)"
    "\<And>k. k \<notin> set (''spacing'' # BREAKPOINT_PROPS) \<Longrightarrow> map_of (c ! ?np) k = map_of (s ! props) k"
    by (simp_all add: frame_def)
  let ?c = "assign (c @ new) ?np k v"
  have n: "?c ! ?np = AList.update k v (c ! ?np)"
    using f(2) by (simp add: assign_def nth_append)
  have "map_of (c ! ?np) k \<noteq> None"
    using read_prop_defined_present [OF assms(3)] f(4)
    by (metis map_of_eq_None_iff image_set)
  then have keys: "map fst (?c ! ?np) = map fst (s ! props)"
    using f(4) by (simp add: n keys_update_present)
  have other: "map_of (?c ! ?np) k' = map_of (s ! props) k'"
    if "k' \<notin> set (''spacing'' # BREAKPOINT_PROPS)" for k'
    using that assms(2) f(5) [OF that] by (auto simp: n update_conv')
  have "take ?np ?c = s"
    using f(2,3) by (simp add: assign_def)
  moreover have "?np < length ?c" using f(2) by (simp add: assign_def)
  ultimately show ?thesis using f(1) keys other by (simp add: frame_def)
qed

lemma breakpoint_prop_frame:
  assumes "frame s props c" and "k \<in> set BREAKPOINT_PROPS"
  shows "\<exists>c'. store_breakpoint_prop props (length s) c k = Inr c' \<and> frame s props c'"
proof (cases "read_prop (s ! props) k \<noteq> RUndefined \<and> typeof_ref (read_prop (s ! props) k) \<noteq> ''object''")
  case True
  then have "store_breakpoint_prop props (length s) c k =
      Inr (assign (c @ [[(''sm'', read_prop (s ! props) k)]]) (length s) k (RRef (length c)))"
    by (simp add: store_breakpoint_prop_def frame_deref [OF assms(1)] allocate_def)
  moreover have "frame s props (assign (c @ [[(''sm'', read_prop (s ! props) k)]]) (length s) k (RRef (length c)))"
    using True assms by (intro frame_assign) simp_all
  ultimately show ?thesis by simp
next
  case False
  then have "store_breakpoint_prop props (length s) c k = Inr c"
    by (auto simp add: store_breakpoint_prop_def frame_deref [OF assms(1)])
  with assms(1) show ?thesis by simp
qed

lemma forEach_frame:
  assumes "frame s props c" and "set ks \<subseteq> set BREAKPOINT_PROPS"
  shows "\<exists>c'. store_forEach (store_breakpoint_prop props (length s)) c ks = Inr c' \<and>
              frame s props c'"
  using assms
proof (induction ks arbitrary: c)
  case Nil
  then show ?case by simp
next
  case (Cons k ks)
  then obtain c1 where c1: "store_breakpoint_prop props (length s) c k = Inr c1" "frame s props c1"
    using breakpoint_prop_frame [of s props c k] by auto
  from Cons.IH [OF c1(2)] Cons.prems(2) c1(1) show ?case by simp
qed

lemma spacing_frame:
  assumes "frame s props c" and "store_spacing props (length s) c = Inr c'"
  shows "frame s props c'"
proof (cases "read_prop (s ! props) ''spacing'' = RUndefined")
  case True
  then show ?thesis
    using assms by (simp add: store_spacing_def frame_deref [OF assms(1)])
next
  case False
  show ?thesis
  proof (cases "typeof_ref (read_prop (s ! props) ''spacing'') = ''number''")
    case True
    then have "c' = assign (c @ [[(''all'', read_prop (s ! props) ''spacing'')], [(''sm'', RRef (length c))]])
        (length s) ''spacing'' (RRef (Suc (length c)))"
      using assms False by (simp add: store_spacing_def frame_deref [OF assms(1)] allocate_def)
    then show ?thesis using frame_assign [OF assms(1) _ False] by simp
  next
    case notnum: False
    then obtain b where b: "store_has_breakpoint_key c (read_prop (s ! props) ''spacing'') = Inr b"
      using assms False by (auto simp: store_spacing_def frame_deref [OF assms(1)] and_then_Inr Let_def)
    show ?thesis
    proof (cases b)
      case True
      then show ?thesis
        using assms False notnum b by (simp add: store_spacing_def frame_deref [OF assms(1)])
    next
      case False
      then have "c' = assign (c @ [[(''sm'', read_prop (s ! props) ''spacing'')]])
        (length s) ''spacing'' (RRef (length c))"
        using assms \<open>read_prop (s ! props) ''spacing'' \<noteq> RUndefined\<close> notnum b
        by (simp add: store_spacing_def frame_deref [OF assms(1)] allocate_def)
      then show ?thesis
        using frame_assign [OF assms(1) _ \<open>read_prop (s ! props) ''spacing'' \<noteq> RUndefined\<close>] by simp
    qed
  qed
qed

lemma store_normalizeProps_frame:
  assumes "store_normalizeProps s props = Inr (s', np)"
  shows "np = length s \<and> frame s props s'"
proof -
  have p: "props < length s"
    using assms by (auto simp: store_normalizeProps_def deref_def and_then_def split: if_splits)
  then have d: "deref s props = Inr (s ! props)" by (simp add: deref_def)
  from forEach_frame [OF frame_initial [OF p], of BREAKPOINT_PROPS]
  obtain c1 where c1: "store_forEach (store_breakpoint_prop props (length s)) (s @ [s ! props])
      BREAKPOINT_PROPS = Inr c1" "frame s props c1" by auto
  from assms have "np = length s" "store_spacing props (length s) c1 = Inr s'"
    by (auto simp: store_normalizeProps_def d allocate_def c1(1) and_then_Inr)
  then show ?thesis using spacing_frame [OF c1(2)] by simp
qed

lemma store_normalizeProps_returns:
  assumes "props < length s"
    and "read_prop (s ! props) ''spacing'' = RUndefined \<or>
         (\<exists>n. read_prop (s ! props) ''spacing'' = RNum n) \<or>
         (\<exists>b. read_prop (s ! props) ''spacing'' = RRef b \<and> b < length s)"
  shows "\<exists>s' np. store_normalizeProps s props = Inr (s', np)"
proof -
  have d: "deref s props = Inr (s ! props)" using assms(1) by (simp add: deref_def)
  from forEach_frame [OF frame_initial [OF assms(1)], of BREAKPOINT_PROPS]
  obtain c1 where c1: "store_forEach (store_breakpoint_prop props (length s)) (s @ [s ! props])
      BREAKPOINT_PROPS = Inr c1" "frame s props c1" by auto
  have "\<exists>c2. store_spacing props (length s) c1 = Inr c2"
    using assms(2) frame_old [OF c1(2)]
    by (auto simp: store_spacing_def frame_deref [OF c1(2)] allocate_def)
  then show ?thesis
    by (auto simp: store_normalizeProps_def d allocate_def c1(1))
qed

section \<open>The store model computes what the tree model computes\<close>

lemma denotes_obj_iff: "denotes h (RRef a) (JObj m) = (\<exists>obj. h a = Some obj \<and> entries h obj m)"
  by (auto simp: entries_def intro: d_obj elim: denotes.cases)

lemma denotes_mono:
  assumes "denotes h v t" and "h \<subseteq>\<^sub>m h'"
  shows "denotes h' v t"
  using assms
proof (induction rule: denotes.induct)
  case (d_obj a obj m)
  have "h' a = Some obj" using d_obj.hyps(1) d_obj.prems by (auto simp: map_le_def dom_def)
  moreover have "list_all2 (\<lambda>kv kt. fst kv = fst kt \<and> denotes h' (snd kv) (snd kt)) obj m"
    using d_obj.IH d_obj.prems by (auto elim!: list_all2_mono)
  ultimately show ?case by (rule denotes.d_obj)
qed (auto intro: denotes.intros)

lemma entries_mono: "entries h obj m \<Longrightarrow> h \<subseteq>\<^sub>m h' \<Longrightarrow> entries h' obj m"
  unfolding entries_def by (auto elim!: list_all2_mono intro: denotes_mono)

lemma entries_keys: "entries h obj m \<Longrightarrow> map fst obj = map fst m"
  unfolding entries_def by (induction rule: list_all2_induct) auto

lemma entries_lookup: "entries h obj m \<Longrightarrow> denotes h (read_prop obj k) (get_prop m k)"
  unfolding entries_def
  by (induction rule: list_all2_induct) (auto simp: read_prop_def get_prop_def intro: denotes.intros)

lemma entries_update:
  "entries h obj m \<Longrightarrow> denotes h v t \<Longrightarrow> entries h (AList.update k v obj) (AList.update k t m)"
  unfolding entries_def
  by (induction rule: list_all2_induct) auto

lemma denotes_typeof: "denotes h v t \<Longrightarrow> typeof_ref v = typeof t"
  by (induction rule: denotes.induct) auto

lemma denotes_undefined: "denotes h v t \<Longrightarrow> (v = RUndefined) = (t = JUndefined)"
  by (induction rule: denotes.induct) auto

lemma base_le_hidden:
  assumes "frame s props c"
  shows "heap_of s \<subseteq>\<^sub>m hidden c (length s)"
  unfolding map_le_def
proof
  fix a
  assume "a \<in> dom (heap_of s)"
  then have a: "a < length s" by (simp add: heap_of_def dom_def split: if_splits)
  moreover have "length s < length c" using assms by (simp add: frame_def)
  ultimately show "heap_of s a = hidden c (length s) a"
    using frame_nth [OF assms a] by (simp add: heap_of_def hidden_def)
qed

lemma hidden_le_assign:
  "n < length c \<Longrightarrow> hidden c n \<subseteq>\<^sub>m hidden (assign (c @ new) n k v) n"
  by (auto simp: map_le_def heap_of_def hidden_def assign_def nth_append dom_def split: if_splits)

lemma hidden_le_heap: "hidden c n \<subseteq>\<^sub>m heap_of c"
  by (auto simp: map_le_def hidden_def dom_def split: if_splits)

lemma hidden_new:
  "n < length c \<Longrightarrow> hidden (assign (c @ new) n k v) n (length c + i) =
     (if i < length new then Some (new ! i) else None)"
  by (auto simp: heap_of_def hidden_def assign_def nth_append)

lemma sim_assign:
  assumes "sim s props c m" and "k \<in> set (''spacing'' # BREAKPOINT_PROPS)"
    and "read_prop (s ! props) k \<noteq> RUndefined"
    and "denotes (hidden (assign (c @ new) (length s) k v) (length s)) v t"
  shows "sim s props (assign (c @ new) (length s) k v) (AList.update k t m)"
proof -
  let ?c = "assign (c @ new) (length s) k v"
  from assms(1) have f: "frame s props c" and e: "entries (hidden c (length s)) (c ! length s) m"
    by (simp_all add: sim_def)
  have l: "length s < length c" using f by (simp add: frame_def)
  have "entries (hidden ?c (length s)) (c ! length s) m"
    using e hidden_le_assign [OF l] by (rule entries_mono)
  from entries_update [OF this assms(4)]
  have "entries (hidden ?c (length s)) (?c ! length s) (AList.update k t m)"
    using l by (simp add: assign_def nth_append)
  then show ?thesis using frame_assign [OF f assms(2,3)] by (simp add: sim_def)
qed

lemma sim_breakpoint_prop:
  assumes "sim s props c m" and "entries (heap_of s) (s ! props) p" and "k \<in> set BREAKPOINT_PROPS"
  shows "\<exists>c'. store_breakpoint_prop props (length s) c k = Inr c' \<and>
              sim s props c' (normalize_breakpoint_prop p m k)"
proof -
  let ?v = "read_prop (s ! props) k" and ?t = "get_prop p k"
  from assms(1) have f: "frame s props c" by (simp add: sim_def)
  have l: "length s < length c" using f by (simp add: frame_def)
  have d: "denotes (heap_of s) ?v ?t" using assms(2) by (rule entries_lookup)
  have cond: "(?v \<noteq> RUndefined \<and> typeof_ref ?v \<noteq> ''object'') = (?t \<noteq> JUndefined \<and> typeof ?t \<noteq> ''object'')"
    using denotes_typeof [OF d] denotes_undefined [OF d] by simp
  show ?thesis
  proof (cases "?v \<noteq> RUndefined \<and> typeof_ref ?v \<noteq> ''object''")
    case True
    let ?c = "assign (c @ [[(''sm'', ?v)]]) (length s) k (RRef (length c))"
    have st: "store_breakpoint_prop props (length s) c k = Inr ?c"
      using True by (simp add: store_breakpoint_prop_def frame_deref [OF f] allocate_def)
    have tr: "normalize_breakpoint_prop p m k = AList.update k (JObj [(''sm'', ?t)]) m"
      using True cond by (simp add: normalize_breakpoint_prop_def)
    have fr: "frame s props ?c" using True assms(3) by (intro frame_assign [OF f]) simp_all
    have "denotes (hidden ?c (length s)) ?v ?t"
      using d base_le_hidden [OF fr] by (rule denotes_mono)
    then have "entries (hidden ?c (length s)) [(''sm'', ?v)] [(''sm'', ?t)]"
      by (simp add: entries_def)
    moreover have "hidden ?c (length s) (length c) = Some [(''sm'', ?v)]"
      using hidden_new [OF l, of "[[(''sm'', ?v)]]" k "RRef (length c)" 0] by simp
    ultimately have "denotes (hidden ?c (length s)) (RRef (length c)) (JObj [(''sm'', ?t)])"
      by (auto simp: denotes_obj_iff)
    from sim_assign [OF assms(1) _ _ this] True assms(3) show ?thesis
      by (simp add: st tr)
  next
    case False
    then have "store_breakpoint_prop props (length s) c k = Inr c"
      by (auto simp add: store_breakpoint_prop_def frame_deref [OF f])
    moreover have "normalize_breakpoint_prop p m k = m"
      using False cond by (auto simp: normalize_breakpoint_prop_def Let_def)
    ultimately show ?thesis using assms(1) by simp
  qed
qed

lemma sim_forEach:
  assumes "sim s props c m" and "entries (heap_of s) (s ! props) p" and "set ks \<subseteq> set BREAKPOINT_PROPS"
  shows "\<exists>c'. store_forEach (store_breakpoint_prop props (length s)) c ks = Inr c' \<and>
              sim s props c' (foldl (normalize_breakpoint_prop p) m ks)"
  using assms
proof (induction ks arbitrary: c m)
  case Nil
  then show ?case by simp
next
  case (Cons k ks)
  then obtain c1 where c1: "store_breakpoint_prop props (length s) c k = Inr c1"
      "sim s props c1 (normalize_breakpoint_prop p m k)"
    using sim_breakpoint_prop [of s props c m p k] by auto
  from Cons.IH [OF c1(2) Cons.prems(2)] Cons.prems(3) c1(1) show ?case by simp
qed

lemma entries_has_bp:
  assumes "entries h obj m"
  shows "(map_of obj ''sm'' \<noteq> None \<or> map_of obj ''md'' \<noteq> None \<or> map_of obj ''lg'' \<noteq> None) = has_bp m"
  using entries_keys [OF assms] by (simp add: has_bp_keys map_of_eq_None_iff) (metis image_set)

lemma sim_spacing:
  assumes "sim s props c m" and "entries (heap_of s) (s ! props) p"
  shows "case store_spacing props (length s) c of
           Inr c' \<Rightarrow> \<exists>q. normalize_spacing p m = Inr q \<and> sim s props c' q
         | Inl f \<Rightarrow> f = Throws TypeError \<and> normalize_spacing p m = Inl TypeError"
proof -
  let ?v = "read_prop (s ! props) ''spacing''" and ?t = "get_prop p ''spacing''"
  from assms(1) have f: "frame s props c" by (simp add: sim_def)
  have l: "length s < length c" using f by (simp add: frame_def)
  have d: "denotes (heap_of s) ?v ?t" using assms(2) by (rule entries_lookup)
  have sp: "''spacing'' \<in> set (''spacing'' # BREAKPOINT_PROPS)" by simp
  from d show ?thesis
  proof (cases rule: denotes.cases)
    case d_undefined
    then show ?thesis
      using assms(1) by (simp add: store_spacing_def frame_deref [OF f] normalize_spacing_def)
  next
    case d_null
    then show ?thesis
      by (simp add: store_spacing_def frame_deref [OF f] normalize_spacing_def
          has_breakpoint_key_def and_then_def)
  next
    case (d_bool b)
    then show ?thesis
      by (simp add: store_spacing_def frame_deref [OF f] normalize_spacing_def
          has_breakpoint_key_def and_then_def)
  next
    case (d_str x)
    then show ?thesis
      by (simp add: store_spacing_def frame_deref [OF f] normalize_spacing_def
          has_breakpoint_key_def and_then_def)
  next
    case (d_num n)
    let ?c = "assign (c @ [[(''all'', RNum n)], [(''sm'', RRef (length c))]])
        (length s) ''spacing'' (RRef (Suc (length c)))"
    have st: "store_spacing props (length s) c = Inr ?c"
      using d_num by (simp add: store_spacing_def frame_deref [OF f] allocate_def)
    have tr: "normalize_spacing p m =
        Inr (AList.update ''spacing'' (JObj [(''sm'', JObj [(''all'', JNum n)])]) m)"
      using d_num by (simp add: normalize_spacing_def)
    have h0: "hidden ?c (length s) (length c) = Some [(''all'', RNum n)]"
      using hidden_new [OF l, of "[[(''all'', RNum n)], [(''sm'', RRef (length c))]]" _ _ 0] by simp
    have h1: "hidden ?c (length s) (Suc (length c)) = Some [(''sm'', RRef (length c))]"
      using hidden_new [OF l, of "[[(''all'', RNum n)], [(''sm'', RRef (length c))]]" _ _ 1] by simp
    have "denotes (hidden ?c (length s)) (RRef (length c)) (JObj [(''all'', JNum n)])"
      using h0 by (simp add: denotes_obj_iff entries_def denotes.d_num)
    then have "denotes (hidden ?c (length s)) (RRef (Suc (length c)))
        (JObj [(''sm'', JObj [(''all'', JNum n)])])"
      using h1 by (simp add: denotes_obj_iff entries_def)
    from sim_assign [OF assms(1) sp _ this] d_num show ?thesis
      by (simp add: st tr)
  next
    case (d_obj b objb m')
    then have b: "b < length s" "objb = s ! b"
      by (simp_all add: heap_of_def split: if_splits)
    have e: "entries (heap_of s) objb m'" using d_obj(4) by (simp add: entries_def)
    have hk: "store_has_breakpoint_key c (RRef b) = Inr (has_bp m')"
      using frame_old [OF f b(1)] entries_has_bp [OF e] b(2) by simp
    show ?thesis
    proof (cases "has_bp m'")
      case True
      then show ?thesis
        using d_obj(1,2) hk assms(1)
        by (simp add: store_spacing_def frame_deref [OF f] normalize_spacing_def
            has_breakpoint_key_obj)
    next
      case False
      let ?c = "assign (c @ [[(''sm'', RRef b)]]) (length s) ''spacing'' (RRef (length c))"
      have st: "store_spacing props (length s) c = Inr ?c"
        using d_obj(1) hk False by (simp add: store_spacing_def frame_deref [OF f] allocate_def)
      have tr: "normalize_spacing p m = Inr (AList.update ''spacing'' (JObj [(''sm'', JObj m')]) m)"
        using d_obj(2) False by (simp add: normalize_spacing_def has_breakpoint_key_obj)
      have fr: "frame s props ?c" using d_obj(1) by (intro frame_assign [OF f]) simp_all
      have "denotes (hidden ?c (length s)) (RRef b) (JObj m')"
        using d d_obj(1,2) base_le_hidden [OF fr] by (auto intro: denotes_mono)
      moreover have "hidden ?c (length s) (length c) = Some [(''sm'', RRef b)]"
        using hidden_new [OF l, of "[[(''sm'', RRef b)]]" _ _ 0] by simp
      ultimately have "denotes (hidden ?c (length s)) (RRef (length c)) (JObj [(''sm'', JObj m')])"
        by (simp add: denotes_obj_iff entries_def)
      from sim_assign [OF assms(1) sp _ this] d_obj(1) show ?thesis
        by (simp add: st tr)
    qed
  qed
qed

lemma store_normalizeProps_refines:
  assumes "denotes (heap_of s) (RRef props) (JObj p)"
  shows "case store_normalizeProps s props of
           Inr (s', np) \<Rightarrow> \<exists>q. normalizeProps p = Inr q \<and> denotes (heap_of s') (RRef np) (JObj q)
         | Inl f \<Rightarrow> f = Throws TypeError \<and> normalizeProps p = Inl TypeError"
proof -
  from assms have p: "props < length s" and e: "entries (heap_of s) (s ! props) p"
    by (auto simp: denotes_obj_iff heap_of_def split: if_splits)
  have d: "deref s props = Inr (s ! props)" using p by (simp add: deref_def)
  have f0: "frame s props (s @ [s ! props])" using p by (rule frame_initial)
  have "entries (hidden (s @ [s ! props]) (length s)) (s ! props) p"
    using e base_le_hidden [OF f0] by (rule entries_mono)
  then have "sim s props (s @ [s ! props]) p" using f0 by (simp add: sim_def)
  from sim_forEach [OF this e, of BREAKPOINT_PROPS]
  obtain c1 where c1: "store_forEach (store_breakpoint_prop props (length s)) (s @ [s ! props])
      BREAKPOINT_PROPS = Inr c1" "sim s props c1 (breakpoint_props_done p)"
    by (auto simp: breakpoint_props_done_def)
  have st: "store_normalizeProps s props =
      and_then (store_spacing props (length s) c1) (\<lambda>s2. Inr (s2, length s))"
    by (simp add: store_normalizeProps_def d allocate_def c1(1))
  show ?thesis
  proof (cases "store_spacing props (length s) c1")
    case (Inl f)
    then show ?thesis
      using sim_spacing [OF c1(2) e] by (simp add: st normalizeProps_def and_then_def)
  next
    case (Inr c2)
    then obtain q where q: "normalize_spacing p (breakpoint_props_done p) = Inr q" "sim s props c2 q"
      using sim_spacing [OF c1(2) e] by auto
    from q(2) have "length s < length c2" "entries (heap_of c2) (c2 ! length s) q"
      using hidden_le_heap by (auto simp: sim_def frame_def intro: entries_mono)
    then have "denotes (heap_of c2) (RRef (length s)) (JObj q)"
      by (simp add: denotes_obj_iff heap_of_def)
    then show ?thesis using Inr q(1) by (simp add: st normalizeProps_def)
  qed
qed

section \<open>The properties the normalizer leaves alone\<close>

lemma normalize_breakpoint_prop_map_of:
  "k' \<noteq> k \<Longrightarrow> map_of (normalize_breakpoint_prop props np k) k' = map_of np k'"
  by (simp add: normalize_breakpoint_prop_def Let_def update_conv')

lemma breakpoint_props_done_map_of:
  "k \<notin> set BREAKPOINT_PROPS \<Longrightarrow> map_of (breakpoint_props_done props) k = map_of props k"
  by (simp add: breakpoint_props_done_def BREAKPOINT_PROPS_def normalize_breakpoint_prop_map_of)

lemma normalizeProps_map_of:
  assumes "normalizeProps p = Inr q" and "k \<notin> set (''spacing'' # BREAKPOINT_PROPS)"
  shows "map_of q k = map_of p k"
  using assms by (cases "get_prop p ''spacing''")
    (auto simp: normalizeProps_cases update_conv' breakpoint_props_done_map_of split: if_splits)

lemma and_then_Inl_simp [simp]: "and_then (Inl e) f = Inl e"
  by (simp add: and_then_def)

lemmas store_defs = store_normalizeProps_def store_spacing_def store_breakpoint_prop_def
  deref_def allocate_def assign_def read_prop_def BREAKPOINT_PROPS_def Let_def

section \<open>The claims\<close>

text \<open>
  C10. For the empty prop record the resolver returns the empty string at md and at lg (no
  declaration, no stray newline) and exactly \<^verbatim>\<open>display: flex;\<close> at sm.
\<close>

theorem C10_empty_props:
  "styleFlex Md [] = Inr [] \<and> styleFlex Lg [] = Inr [] \<and> styleFlex Sm [] = Inr ''display: flex;''"
  by (simp add: js_defs styleFlex_defs)

text \<open>
  C1. The claim asks for the literal \<^verbatim>\<open>gap: 0;\<close> when the gap is 0 at the tier. The gap
  declaration of line 211 does not go through \<^verbatim>\<open>getGapSize\<close>, as the spacing
  declarations do: it interpolates the number into the token, so a gap of 0 at sm is emitted as
  \<^verbatim>\<open>gap: var(--gap-size-0);\<close>, while \<^verbatim>\<open>getGapSize\<close> itself maps 0 to \<^verbatim>\<open>0\<close>.
\<close>

theorem C1_gap_zero_is_token:
  "styleFlex Sm [(''gap'', JObj [(''sm'', JInt 0)])] = Inr ''display: flex;\<newline>gap: var(--gap-size-0);''
   \<and> getGapSize (JInt 0) = Inr (JStr ''0'')"
  by (simp add: js_defs styleFlex_defs)

text \<open>
  C2. The claim's scenario returns the direction, then the padding of the right side, then
  that of the left side, and so not the string of the claim, which has the left side before
  the right: \<^verbatim>\<open>styleSpacing\<close> pushes the sides in the order top, right, bottom, left
  (lines 67-78). The example in the doc comment of \<^verbatim>\<open>styleFlex\<close> (lines 126-132) gives,
  for the same spacing, the order of the claim: after the direction and the gap it documents
  \<^verbatim>\<open>padding-left\<close> and then \<^verbatim>\<open>padding-right\<close>. On the props of that example too the
  resolver returns the right side before the left, so it does not return what its own doc
  comment says.
\<close>

theorem C2_scenario_order:
  "and_then
     (normalizeProps
        [(''direction'', JObj [(''sm'', JStr ''column''), (''md'', JStr ''row'')]),
         (''spacing'', JObj [(''md'', JObj [(''horizontal'', JInt 2)])])])
     (styleFlex Md)
   = Inr ''flex-direction: row;\<newline>padding-right: var(--gap-size-2);\<newline>padding-left: var(--gap-size-2);'' \<and>
   and_then
     (normalizeProps
        [(''direction'', JObj [(''sm'', JStr ''column''), (''md'', JStr ''row'')]),
         (''spacing'', JObj [(''md'', JObj [(''horizontal'', JInt 2)])])])
     (styleFlex Md)
   \<noteq> Inr ''flex-direction: row;\<newline>padding-left: var(--gap-size-2);\<newline>padding-right: var(--gap-size-2);'' \<and>
   styleFlex Md
     [(''direction'', JObj [(''sm'', JStr ''column''), (''md'', JStr ''row'')]),
      (''gap'', JObj [(''sm'', JInt 1), (''md'', JInt 3)]),
      (''spacing'', JObj [(''md'', JObj [(''horizontal'', JInt 2)])])]
   = Inr ''flex-direction: row;\<newline>gap: var(--gap-size-3);\<newline>padding-right: var(--gap-size-2);\<newline>padding-left: var(--gap-size-2);'' \<and>
   styleFlex Md
     [(''direction'', JObj [(''sm'', JStr ''column''), (''md'', JStr ''row'')]),
      (''gap'', JObj [(''sm'', JInt 1), (''md'', JInt 3)]),
      (''spacing'', JObj [(''md'', JObj [(''horizontal'', JInt 2)])])]
   \<noteq> Inr ''flex-direction: row;\<newline>gap: var(--gap-size-3);\<newline>padding-left: var(--gap-size-2);\<newline>padding-right: var(--gap-size-2);''"
  by (simp add: js_defs styleFlex_defs normalizeProps_defs)

text \<open>
  C3. For every spacing definition the sub-resolver resolves each side as side, then axis,
  then \<^verbatim>\<open>all\<close> (top and bottom use vertical, right and left use horizontal) and emits the
  resolved sides in the order top, right, bottom, left, skipping the sides with no value:
  \<^verbatim>\<open>styleSpacing\<close> returns what the spec's wording of the sub-resolver returns. The witness
  is the spec's example, all 1, horizontal 2, top 3.
\<close>

theorem C3_spacing_priority:
  assumes "is_SpacingDefinition (JObj d)"
  shows "styleSpacing (JStr kind) (JObj d) = Inr (spec_spacingDeclarations kind d)"
  using assms by (rule styleSpacing_spec)

theorem C3_spacing_priority_witness:
  "is_SpacingDefinition (JObj [(''all'', JInt 1), (''horizontal'', JInt 2), (''top'', JInt 3)]) \<and>
   styleSpacing (JStr ''padding'') (JObj [(''all'', JInt 1), (''horizontal'', JInt 2), (''top'', JInt 3)])
     = Inr ''padding-top: var(--gap-size-3);\<newline>padding-right: var(--gap-size-2);\<newline>padding-bottom: var(--gap-size-1);\<newline>padding-left: var(--gap-size-2);''"
proof -
  have h: "is_SpacingDefinition (JObj [(''all'', JInt 1), (''horizontal'', JInt 2), (''top'', JInt 3)])"
    by (simp add: is_SpacingDefinition_def optional_def)
  show ?thesis
    using h C3_spacing_priority [OF h, of "''padding''"]
    by (simp add: spec_spacingDeclarations_def resolved_side_def gap_token_def js_defs)
qed

text \<open>
  C4. On well-typed props the normalizer returns, and in its result each of gap, direction,
  grow and spacing that the input defines is a breakpoint map (of gap sizes, of direction
  strings, of numbers, of spacing definitions). A bare number \<open>n\<close> as spacing becomes the
  all-sides definition at sm: the record with spacing \<open>n\<close> alone normalizes to the record
  with spacing \<^verbatim>\<open>{sm: {all: n}}\<close>, for every \<open>n\<close>.
\<close>

theorem C4_normalized_shape:
  assumes "FlexProps K p"
  shows "\<exists>q. normalizeProps p = Inr q \<and>
           (get_prop p ''gap'' \<noteq> JUndefined \<longrightarrow>
              is_BreakpointMap is_GapSize (get_prop q ''gap'')) \<and>
           (get_prop p ''direction'' \<noteq> JUndefined \<longrightarrow>
              is_BreakpointMap (is_keyword K) (get_prop q ''direction'')) \<and>
           (get_prop p ''grow'' \<noteq> JUndefined \<longrightarrow>
              is_BreakpointMap is_number (get_prop q ''grow'')) \<and>
           (get_prop p ''spacing'' \<noteq> JUndefined \<longrightarrow>
              is_BreakpointMap is_SpacingDefinition (get_prop q ''spacing'')) \<and>
           (\<forall>n. normalizeProps [(''spacing'', JNum n)]
                  = Inr [(''spacing'', JObj [(''sm'', JObj [(''all'', JNum n)])])])"
proof -
  obtain q where q: "normalizeProps p = Inr q" using normalizeProps_returns [OF assms] by blast
  have g: "get_prop p ''gap'' \<noteq> JUndefined \<Longrightarrow> is_BreakpointMap is_GapSize (get_prop q ''gap'')"
    using assms scalar_wrapped [of is_GapSize p "''gap''"] is_GapSize_cases
    by (fastforce simp: FlexProps_def normalizeProps_other [OF q] BREAKPOINT_PROPS_def)
  have d: "get_prop p ''direction'' \<noteq> JUndefined \<Longrightarrow>
      is_BreakpointMap (is_keyword K) (get_prop q ''direction'')"
    using assms scalar_wrapped [of "is_keyword K" p "''direction''"] is_keyword_cases
    by (fastforce simp: FlexProps_def normalizeProps_other [OF q] BREAKPOINT_PROPS_def)
  have r: "get_prop p ''grow'' \<noteq> JUndefined \<Longrightarrow> is_BreakpointMap is_number (get_prop q ''grow'')"
    using assms scalar_wrapped [of is_number p "''grow''"] is_number_cases
    by (fastforce simp: FlexProps_def normalizeProps_other [OF q] BREAKPOINT_PROPS_def)
  have s: "get_prop p ''spacing'' \<noteq> JUndefined \<Longrightarrow>
      is_BreakpointMap is_SpacingDefinition (get_prop q ''spacing'')"
  proof -
    assume u: "get_prop p ''spacing'' \<noteq> JUndefined"
    from FlexProps_spacing [OF assms] u
    consider n where "get_prop p ''spacing'' = JNum n" "is_GapSize (JNum n)"
      | m where "get_prop p ''spacing'' = JObj m" "is_SpacingDefinition (JObj m)"
      | m where "get_prop p ''spacing'' = JObj m" "is_BreakpointMap is_SpacingDefinition (JObj m)"
      by blast
    then show ?thesis
    proof cases
      case 1
      then show ?thesis
        by (simp add: normalizeProps_spacing [OF q] is_BreakpointMap_def
            is_SpacingDefinition_def optional_def)
    next
      case 2
      then show ?thesis
        using SpacingDefinition_no_bp [of m]
        by (simp add: normalizeProps_spacing [OF q] is_BreakpointMap_def optional_def)
    next
      case 3
      then show ?thesis
        using BreakpointMap_no_bp [of is_SpacingDefinition m]
        by (auto simp: normalizeProps_spacing [OF q] is_BreakpointMap_def
            is_SpacingDefinition_def optional_def)
    qed
  qed
  have n: "\<forall>n. normalizeProps [(''spacing'', JNum n)]
                  = Inr [(''spacing'', JObj [(''sm'', JObj [(''all'', JNum n)])])]"
    by (simp add: normalizeProps_defs js_defs)
  from q g d r s n show ?thesis by blast
qed

theorem C4_normalized_shape_witness:
  "FlexProps (\<lambda>s. True)
     [(''gap'', JInt 2), (''direction'', JStr ''row''), (''grow'', JInt 1), (''spacing'', JInt 3)] \<and>
   (\<exists>q. normalizeProps
          [(''gap'', JInt 2), (''direction'', JStr ''row''), (''grow'', JInt 1), (''spacing'', JInt 3)]
          = Inr q \<and>
        is_BreakpointMap is_GapSize (get_prop q ''gap'') \<and>
        is_BreakpointMap (is_keyword (\<lambda>s. True)) (get_prop q ''direction'') \<and>
        is_BreakpointMap is_number (get_prop q ''grow'') \<and>
        is_BreakpointMap is_SpacingDefinition (get_prop q ''spacing''))"
proof -
  have h: "FlexProps (\<lambda>s. True)
     [(''gap'', JInt 2), (''direction'', JStr ''row''), (''grow'', JInt 1), (''spacing'', JInt 3)]"
    by (simp add: type_defs get_prop_def)
  show ?thesis
    using h C4_normalized_shape [OF h] by (auto simp: get_prop_def)
qed

text \<open>
  C5. Normalizing twice is normalizing once: whatever the first pass returns, the second
  returns the same record; and on well-typed props the first pass does return.
\<close>

theorem C5_normalize_idempotent:
  "and_then (normalizeProps p) normalizeProps = normalizeProps p \<and>
   (FlexProps K p \<longrightarrow> (\<exists>q. normalizeProps p = Inr q))"
  using normalizeProps_idem normalizeProps_returns by blast

theorem C5_normalize_idempotent_witness:
  "FlexProps (\<lambda>s. True) [(''gap'', JInt 2), (''spacing'', JObj [(''all'', JInt 3)])] \<and>
   normalizeProps [(''gap'', JInt 2), (''spacing'', JObj [(''all'', JInt 3)])]
     = Inr [(''gap'', JObj [(''sm'', JInt 2)]),
            (''spacing'', JObj [(''sm'', JObj [(''all'', JInt 3)])])] \<and>
   normalizeProps [(''gap'', JObj [(''sm'', JInt 2)]),
                   (''spacing'', JObj [(''sm'', JObj [(''all'', JInt 3)])])]
     = Inr [(''gap'', JObj [(''sm'', JInt 2)]),
            (''spacing'', JObj [(''sm'', JObj [(''all'', JInt 3)])])]"
proof -
  have h: "FlexProps (\<lambda>s. True) [(''gap'', JInt 2), (''spacing'', JObj [(''all'', JInt 3)])]"
    by (simp add: type_defs get_prop_def)
  have e: "normalizeProps [(''gap'', JInt 2), (''spacing'', JObj [(''all'', JInt 3)])]
     = Inr [(''gap'', JObj [(''sm'', JInt 2)]),
            (''spacing'', JObj [(''sm'', JObj [(''all'', JInt 3)])])]"
    by (simp add: normalizeProps_defs js_defs)
  show ?thesis
    using h e C5_normalize_idempotent
      [of "[(''gap'', JInt 2), (''spacing'', JObj [(''all'', JInt 3)])]" "\<lambda>s. True"]
    by (simp add: and_then_def)
qed

text \<open>
  C8. The spacing is classified by the presence of keys, not by a type tag: a number \<open>n\<close>
  becomes \<^verbatim>\<open>{sm: {all: n}}\<close>; an object with none of the keys sm, md, lg is wrapped as
  \<^verbatim>\<open>{sm: <the object>}\<close>; an object with at least one of them is left as it is, whatever
  else it holds. The witness takes, for the last case, a spacing definition with a stray
  key sm.
\<close>

theorem C8_spacing_classification:
  "(get_prop p ''spacing'' = JNum n \<longrightarrow>
      (\<exists>q. normalizeProps p = Inr q \<and>
           get_prop q ''spacing'' = JObj [(''sm'', JObj [(''all'', JNum n)])])) \<and>
   (get_prop p ''spacing'' = JObj m \<and>
      ''sm'' \<notin> set (map fst m) \<and> ''md'' \<notin> set (map fst m) \<and> ''lg'' \<notin> set (map fst m) \<longrightarrow>
      (\<exists>q. normalizeProps p = Inr q \<and> get_prop q ''spacing'' = JObj [(''sm'', JObj m)])) \<and>
   (get_prop p ''spacing'' = JObj m \<and>
      (''sm'' \<in> set (map fst m) \<or> ''md'' \<in> set (map fst m) \<or> ''lg'' \<in> set (map fst m)) \<longrightarrow>
      (\<exists>q. normalizeProps p = Inr q \<and> get_prop q ''spacing'' = JObj m))"
proof -
  have sp: "get_prop (breakpoint_props_done p) ''spacing'' = get_prop p ''spacing''"
    by (simp add: breakpoint_props_done_get BREAKPOINT_PROPS_def)
  show ?thesis
    using has_bp_keys [of m] sp by (auto simp: normalizeProps_cases get_prop_update)
qed

theorem C8_spacing_classification_witness:
  "(\<exists>q. normalizeProps [(''spacing'', JInt 3)] = Inr q \<and>
        get_prop q ''spacing'' = JObj [(''sm'', JObj [(''all'', JInt 3)])]) \<and>
   (\<exists>q. normalizeProps [(''spacing'', JObj [(''all'', JInt 3)])] = Inr q \<and>
        get_prop q ''spacing'' = JObj [(''sm'', JObj [(''all'', JInt 3)])]) \<and>
   (\<exists>q. normalizeProps [(''spacing'', JObj [(''all'', JInt 3), (''sm'', JInt 1)])] = Inr q \<and>
        get_prop q ''spacing'' = JObj [(''all'', JInt 3), (''sm'', JInt 1)])"
  using C8_spacing_classification [of "[(''spacing'', JInt 3)]" "Dec False 3 0" "[]"]
    C8_spacing_classification [of "[(''spacing'', JObj [(''all'', JInt 3)])]" NaN "[(''all'', JInt 3)]"]
    C8_spacing_classification [of "[(''spacing'', JObj [(''all'', JInt 3), (''sm'', JInt 1)])]" NaN
      "[(''all'', JInt 3), (''sm'', JInt 1)]"]
  by (simp add: get_prop_def)

text \<open>
  C6. Whatever the props, an output at sm starts with \<^verbatim>\<open>display: flex;\<close>. On
  well-typed props the resolver returns at every tier, and when moreover the direction and
  alignment strings hold no colon (they are CSS keywords), the outputs at md and at lg do not
  contain the text \<^verbatim>\<open>display: flex;\<close> anywhere.
\<close>

theorem C6_display_rule:
  "(\<forall>out. styleFlex Sm p = Inr out \<longrightarrow> prefix ''display: flex;'' out) \<and>
   (FlexProps K p \<longrightarrow> (\<exists>out. styleFlex bp p = Inr out)) \<and>
   (FlexProps K p \<and> (\<forall>s. K s \<longrightarrow> colon_free s) \<and> (bp = Md \<or> bp = Lg) \<longrightarrow>
      (\<forall>out. styleFlex bp p = Inr out \<longrightarrow> \<not> sublist ''display: flex;'' out))"
proof -
  have "\<not> sublist ''display: flex;'' out"
    if "FlexProps K p" "\<forall>s. K s \<longrightarrow> colon_free s" "bp = Md \<or> bp = Lg" "styleFlex bp p = Inr out"
    for out
    using that styleFlex_no_display [of K p bp out] by auto
  then show ?thesis
    using styleFlex_sm_prefix [of p] styleFlex_returns [of K p bp] by blast
qed

theorem C6_display_rule_witness:
  "FlexProps colon_free
     [(''direction'', JObj [(''sm'', JStr ''column''), (''md'', JStr ''row'')]), (''gap'', JInt 2)] \<and>
   styleFlex Sm
     [(''direction'', JObj [(''sm'', JStr ''column''), (''md'', JStr ''row'')]), (''gap'', JInt 2)]
     = Inr ''display: flex;\<newline>flex-direction: column;\<newline>gap: var(--gap-size-2);'' \<and>
   prefix ''display: flex;''
     ''display: flex;\<newline>flex-direction: column;\<newline>gap: var(--gap-size-2);'' \<and>
   styleFlex Md
     [(''direction'', JObj [(''sm'', JStr ''column''), (''md'', JStr ''row'')]), (''gap'', JInt 2)]
     = Inr ''flex-direction: row;'' \<and>
   \<not> sublist ''display: flex;'' ''flex-direction: row;''"
proof -
  let ?p = "[(''direction'', JObj [(''sm'', JStr ''column''), (''md'', JStr ''row'')]),
             (''gap'', JInt 2)]"
  have h: "FlexProps colon_free ?p"
    by (simp add: type_defs get_prop_def colon_free_def)
  have k: "\<forall>s. colon_free s \<longrightarrow> colon_free s" by simp
  have sm: "styleFlex Sm ?p
      = Inr ''display: flex;\<newline>flex-direction: column;\<newline>gap: var(--gap-size-2);''"
    by (simp add: js_defs styleFlex_defs)
  have md: "styleFlex Md ?p = Inr ''flex-direction: row;''"
    by (simp add: js_defs styleFlex_defs)
  from C6_display_rule [of ?p colon_free Md] h k sm md show ?thesis by simp
qed

text \<open>
  C7. Whatever the props, when the grow resolves at the tier (to anything but
  \<^verbatim>\<open>undefined\<close>, so also to 0) an output contains \<^verbatim>\<open>flex-grow: <value>;\<close> with
  \<^verbatim>\<open>flex-basis: 0;\<close> as the next line. On well-typed props the resolver returns, and when
  moreover the direction and alignment strings hold no colon, wherever \<^verbatim>\<open>flex-grow:\<close>
  occurs in the output the grow has resolved to a number at the tier, and what follows the
  occurrence is a space, that number as JavaScript prints it (a text without semicolon or
  newline), the semicolon, and \<^verbatim>\<open>flex-basis: 0;\<close> as the whole of the next line. The
  witness has the grow 1.5 at sm, and an explicit 0 at md.
\<close>

theorem C7_grow_pairing:
  "(\<forall>out g. styleFlex bp p = Inr out \<and>
        tier_value bp ''number'' (get_prop p ''grow'') = Inr g \<and> g \<noteq> JUndefined \<longrightarrow>
      (\<exists>s. to_string g = Inr s \<and>
           sublist (''flex-grow: '' @ s @ '';\<newline>flex-basis: 0;'') out)) \<and>
   (FlexProps K p \<longrightarrow> (\<exists>out. styleFlex bp p = Inr out)) \<and>
   (FlexProps K p \<and> (\<forall>s. K s \<longrightarrow> colon_free s) \<longrightarrow>
      (\<forall>pre post. styleFlex bp p = Inr (pre @ ''flex-grow:'' @ post) \<longrightarrow>
         (\<exists>x rest. tier_value bp ''number'' (get_prop p ''grow'') = Inr (JNum x) \<and>
            post = '' '' @ Number_toString x @ '';\<newline>flex-basis: 0;'' @ rest \<and>
            CHR '';'' \<notin> set (Number_toString x) \<and>
            CHR ''\<newline>'' \<notin> set (Number_toString x) \<and>
            (rest = [] \<or> (\<exists>r. rest = CHR ''\<newline>'' # r)))))"
proof -
  have "\<exists>x rest. tier_value bp ''number'' (get_prop p ''grow'') = Inr (JNum x) \<and>
            post = '' '' @ Number_toString x @ '';\<newline>flex-basis: 0;'' @ rest \<and>
            CHR '';'' \<notin> set (Number_toString x) \<and>
            CHR ''\<newline>'' \<notin> set (Number_toString x) \<and>
            (rest = [] \<or> (\<exists>r. rest = CHR ''\<newline>'' # r))"
    if "FlexProps K p" "\<forall>s. K s \<longrightarrow> colon_free s"
      "styleFlex bp p = Inr (pre @ ''flex-grow:'' @ post)"
    for pre post
    using that styleFlex_grow_only_paired [of K p bp pre post] Number_toString_one_token
    by blast
  then show ?thesis
    using styleFlex_grow_pair [of bp p] styleFlex_returns [of K p bp] by blast
qed

theorem C7_grow_pairing_witness:
  "FlexProps colon_free [(''grow'', JNum (Dec False 15 (- 1))), (''gap'', JInt 1)] \<and>
   tier_value Sm ''number''
     (get_prop [(''grow'', JNum (Dec False 15 (- 1))), (''gap'', JInt 1)] ''grow'')
     = Inr (JNum (Dec False 15 (- 1))) \<and>
   styleFlex Sm [(''grow'', JNum (Dec False 15 (- 1))), (''gap'', JInt 1)]
     = Inr ''display: flex;\<newline>flex-grow: 1.5;\<newline>flex-basis: 0;\<newline>gap: var(--gap-size-1);'' \<and>
   sublist ''flex-grow: 1.5;\<newline>flex-basis: 0;''
     ''display: flex;\<newline>flex-grow: 1.5;\<newline>flex-basis: 0;\<newline>gap: var(--gap-size-1);'' \<and>
   (\<exists>rest. '' 1.5;\<newline>flex-basis: 0;\<newline>gap: var(--gap-size-1);''
          = '' '' @ Number_toString (Dec False 15 (- 1)) @ '';\<newline>flex-basis: 0;'' @ rest \<and>
        (rest = [] \<or> (\<exists>r. rest = CHR ''\<newline>'' # r))) \<and>
   styleFlex Md [(''grow'', JObj [(''md'', JInt 0)])] = Inr ''flex-grow: 0;\<newline>flex-basis: 0;''"
proof -
  let ?g = "JNum (Dec False 15 (- 1))"
  let ?p = "[(''grow'', ?g), (''gap'', JInt 1)]"
  define out where
    "out = ''display: flex;\<newline>flex-grow: 1.5;\<newline>flex-basis: 0;\<newline>gap: var(--gap-size-1);''"
  define post where "post = '' 1.5;\<newline>flex-basis: 0;\<newline>gap: var(--gap-size-1);''"
  have h: "FlexProps colon_free ?p"
    by (simp add: type_defs get_prop_def)
  have k: "\<forall>s. colon_free s \<longrightarrow> colon_free s" by simp
  have g: "tier_value Sm ''number'' (get_prop ?p ''grow'') = Inr ?g"
    by (simp add: tier_value_def get_prop_def)
  have e: "styleFlex Sm ?p = Inr out"
    by (simp add: out_def js_defs styleFlex_defs)
  have e': "styleFlex Sm ?p = Inr (''display: flex;\<newline>'' @ ''flex-grow:'' @ post)"
    unfolding e out_def post_def by simp
  have t: "to_string ?g = Inr ''1.5''" by (simp add: js_defs)
  note c = C7_grow_pairing [of Sm ?p colon_free]
  have "\<exists>s. to_string ?g = Inr s \<and>
          sublist (''flex-grow: '' @ s @ '';\<newline>flex-basis: 0;'') out"
    using c [THEN conjunct1, rule_format, of out ?g] e g by simp
  then obtain s where s: "to_string ?g = Inr s"
      "sublist (''flex-grow: '' @ s @ '';\<newline>flex-basis: 0;'') out"
    by iprover
  from s(1) have "s = ''1.5''" unfolding t by simp
  with s(2) have a: "sublist (''flex-grow: '' @ ''1.5'' @ '';\<newline>flex-basis: 0;'') out"
    by simp
  have "\<exists>x rest. tier_value Sm ''number'' (get_prop ?p ''grow'') = Inr (JNum x) \<and>
            post = '' '' @ Number_toString x @ '';\<newline>flex-basis: 0;'' @ rest \<and>
            CHR '';'' \<notin> set (Number_toString x) \<and>
            CHR ''\<newline>'' \<notin> set (Number_toString x) \<and>
            (rest = [] \<or> (\<exists>r. rest = CHR ''\<newline>'' # r))"
    using c [THEN conjunct2, THEN conjunct2, rule_format, of "''display: flex;\<newline>''" post]
      h k e' by simp
  then obtain x rest where x: "tier_value Sm ''number'' (get_prop ?p ''grow'') = Inr (JNum x)"
      "post = '' '' @ Number_toString x @ '';\<newline>flex-basis: 0;'' @ rest"
      "rest = [] \<or> (\<exists>r. rest = CHR ''\<newline>'' # r)"
    by iprover
  from x(1) have "x = Dec False 15 (- 1)" unfolding g by simp
  with x(2,3) have b: "\<exists>rest. post
        = '' '' @ Number_toString (Dec False 15 (- 1)) @ '';\<newline>flex-basis: 0;'' @ rest \<and>
      (rest = [] \<or> (\<exists>r. rest = CHR ''\<newline>'' # r))"
    by iprover
  have z: "styleFlex Md [(''grow'', JObj [(''md'', JInt 0)])] = Inr ''flex-grow: 0;\<newline>flex-basis: 0;''"
    by (simp add: js_defs styleFlex_defs)
  from h g e a b z show ?thesis
    unfolding out_def post_def by simp
qed

text \<open>
  C9. On the store: when the normalizer returns, the record it returns is at an address the
  store did not have, every object the store had (the argument among them) is as it was, the
  new record has the keys of the argument in their order (a property the argument lacks stays
  absent) and, under every key other than gap, direction, grow and spacing, the very value of
  the argument. It does return when the argument is in the store and its spacing is missing, a
  number or an object of the store. The store model computes what \<open>normalizeProps\<close>
  computes on the trees that the addresses denote, and on trees the same two facts hold: same
  keys in the same order, same entry under every other key.
\<close>

theorem C9_new_record_frame:
  "(\<forall>s' np. store_normalizeProps s props = Inr (s', np) \<longrightarrow>
      length s \<le> np \<and> np < length s' \<and> take (length s) s' = s \<and>
      map fst (s' ! np) = map fst (s ! props) \<and>
      (\<forall>k. k \<noteq> ''gap'' \<and> k \<noteq> ''direction'' \<and> k \<noteq> ''grow'' \<and> k \<noteq> ''spacing'' \<longrightarrow>
           map_of (s' ! np) k = map_of (s ! props) k)) \<and>
   (props < length s \<and>
      (read_prop (s ! props) ''spacing'' = RUndefined \<or>
       (\<exists>n. read_prop (s ! props) ''spacing'' = RNum n) \<or>
       (\<exists>b. read_prop (s ! props) ''spacing'' = RRef b \<and> b < length s)) \<longrightarrow>
      (\<exists>s' np. store_normalizeProps s props = Inr (s', np))) \<and>
   (denotes (heap_of s) (RRef props) (JObj p) \<longrightarrow>
      (\<forall>s' np. store_normalizeProps s props = Inr (s', np) \<longrightarrow>
         (\<exists>q. normalizeProps p = Inr q \<and> denotes (heap_of s') (RRef np) (JObj q)))) \<and>
   (\<forall>q. normalizeProps p = Inr q \<longrightarrow>
      map fst q = map fst p \<and>
      (\<forall>k. k \<noteq> ''gap'' \<and> k \<noteq> ''direction'' \<and> k \<noteq> ''grow'' \<and> k \<noteq> ''spacing'' \<longrightarrow>
           map_of q k = map_of p k))"
proof -
  have a: "length s \<le> np \<and> np < length s' \<and> take (length s) s' = s \<and>
      map fst (s' ! np) = map fst (s ! props) \<and>
      (\<forall>k. k \<noteq> ''gap'' \<and> k \<noteq> ''direction'' \<and> k \<noteq> ''grow'' \<and> k \<noteq> ''spacing'' \<longrightarrow>
           map_of (s' ! np) k = map_of (s ! props) k)"
    if "store_normalizeProps s props = Inr (s', np)" for s' np
    using store_normalizeProps_frame [OF that]
    by (simp add: frame_def BREAKPOINT_PROPS_def)
  have b: "\<exists>q. normalizeProps p = Inr q \<and> denotes (heap_of s') (RRef np) (JObj q)"
    if "denotes (heap_of s) (RRef props) (JObj p)" "store_normalizeProps s props = Inr (s', np)"
    for s' np
    using store_normalizeProps_refines [OF that(1)] that(2) by simp
  have c: "map fst q = map fst p \<and>
      (\<forall>k. k \<noteq> ''gap'' \<and> k \<noteq> ''direction'' \<and> k \<noteq> ''grow'' \<and> k \<noteq> ''spacing'' \<longrightarrow>
           map_of q k = map_of p k)"
    if "normalizeProps p = Inr q" for q
    using normalizeProps_keys [OF that] normalizeProps_map_of [OF that]
    by (simp add: BREAKPOINT_PROPS_def)
  show ?thesis
    using a b c store_normalizeProps_returns [of props s] by blast
qed

theorem C9_new_record_frame_witness:
  "store_normalizeProps
     [[(''gap'', RInt 2), (''alignItems'', RStr ''center''), (''direction'', RRef 1)],
      [(''md'', RStr ''row'')]] 0
     = Inr ([[(''gap'', RInt 2), (''alignItems'', RStr ''center''), (''direction'', RRef 1)],
             [(''md'', RStr ''row'')],
             [(''gap'', RRef 3), (''alignItems'', RStr ''center''), (''direction'', RRef 1)],
             [(''sm'', RInt 2)]], 2) \<and>
   map_of [(''gap'', RRef 3), (''alignItems'', RStr ''center''), (''direction'', RRef 1)] ''alignItems''
     = map_of [(''gap'', RInt 2), (''alignItems'', RStr ''center''), (''direction'', RRef 1)] ''alignItems'' \<and>
   map_of [(''gap'', RRef 3), (''alignItems'', RStr ''center''), (''direction'', RRef 1)] ''type''
     = map_of [(''gap'', RInt 2), (''alignItems'', RStr ''center''), (''direction'', RRef 1)] ''type'' \<and>
   denotes
     (heap_of [[(''gap'', RInt 2), (''alignItems'', RStr ''center''), (''direction'', RRef 1)],
               [(''md'', RStr ''row'')]])
     (RRef 0)
     (JObj [(''gap'', JInt 2), (''alignItems'', JStr ''center''),
            (''direction'', JObj [(''md'', JStr ''row'')])]) \<and>
   (\<exists>q. normalizeProps [(''gap'', JInt 2), (''alignItems'', JStr ''center''),
                         (''direction'', JObj [(''md'', JStr ''row'')])] = Inr q \<and>
        denotes
          (heap_of [[(''gap'', RInt 2), (''alignItems'', RStr ''center''), (''direction'', RRef 1)],
                    [(''md'', RStr ''row'')],
                    [(''gap'', RRef 3), (''alignItems'', RStr ''center''), (''direction'', RRef 1)],
                    [(''sm'', RInt 2)]])
          (RRef 2) (JObj q))"
proof -
  define S where "S = [[(''gap'', RInt 2), (''alignItems'', RStr ''center''), (''direction'', RRef 1)],
      [(''md'', RStr ''row'')]]"
  define S' where "S' = [[(''gap'', RInt 2), (''alignItems'', RStr ''center''), (''direction'', RRef 1)],
             [(''md'', RStr ''row'')],
             [(''gap'', RRef 3), (''alignItems'', RStr ''center''), (''direction'', RRef 1)],
             [(''sm'', RInt 2)]]"
  define P where "P = [(''gap'', JInt 2), (''alignItems'', JStr ''center''),
            (''direction'', JObj [(''md'', JStr ''row'')])]"
  have e: "store_normalizeProps S 0 = Inr (S', 2)"
    by (simp add: S_def S'_def store_defs)
  have d1: "denotes (heap_of S) (RRef 1) (JObj [(''md'', JStr ''row'')])"
    by (simp add: denotes_obj_iff entries_def heap_of_def S_def denotes.d_str)
  have d: "denotes (heap_of S) (RRef 0) (JObj P)"
    using d1 by (simp add: denotes_obj_iff entries_def heap_of_def S_def P_def denotes.d_num denotes.d_str)
  note c = C9_new_record_frame [of S 0 P]
  from c [THEN conjunct1, rule_format, OF e]
  have f: "\<forall>k. k \<noteq> ''gap'' \<and> k \<noteq> ''direction'' \<and> k \<noteq> ''grow'' \<and> k \<noteq> ''spacing'' \<longrightarrow>
      map_of (S' ! 2) k = map_of (S ! 0) k"
    by simp
  have f1: "map_of (S' ! 2) ''alignItems'' = map_of (S ! 0) ''alignItems''"
    using f [rule_format, of "''alignItems''"] by simp
  have f2: "map_of (S' ! 2) ''type'' = map_of (S ! 0) ''type''"
    using f [rule_format, of "''type''"] by simp
  have r: "\<exists>q. normalizeProps P = Inr q \<and> denotes (heap_of S') (RRef 2) (JObj q)"
    using c [THEN conjunct2, THEN conjunct2, THEN conjunct1, rule_format, OF d e] .
  have n2: "S' ! 2 = [(''gap'', RRef 3), (''alignItems'', RStr ''center''), (''direction'', RRef 1)]"
    by (simp add: S'_def)
  have n0: "S ! 0 = [(''gap'', RInt 2), (''alignItems'', RStr ''center''), (''direction'', RRef 1)]"
    by (simp add: S_def)
  from e f1 f2 d r show ?thesis
    unfolding n2 n0 unfolding S_def S'_def P_def by (intro conjI)
qed

end
